theory Spec2Isabelle
  imports Complex_Main "HOL-Library.Char_ord" "HOL-Library.List_Lexorder" "HOL-Library.Sublist"
    "HOL-Library.Multiset"
begin

section \<open>Values and records of the deduplication module\<close>

text \<open>
  The module \<^verbatim>\<open>utils/deduplication.py\<close> works on company records that are Python
  dictionaries from field names to arbitrary values (\<^verbatim>\<open>Dict[str, Any]\<close>). The values
  that the source adapters put into such a record are \<^verbatim>\<open>None\<close>, integers, strings
  and lists; these are the values of the model (floating point numbers, booleans and
  nested dictionaries are left out). A string is a list of code points below 256. A
  dictionary is a partial map, so two records are equal exactly when they hold the
  same keys with the same values, as in Python.
\<close>

datatype pyval = PNone | PInt int | PStr string | PList "pyval list"

datatype error = TypeError | AttributeError | IndexError

type_synonym company = "string \<rightharpoonup> pyval"

text \<open>Python truthiness (\<^verbatim>\<open>if v:\<close>, \<^verbatim>\<open>not v\<close>) on these values.\<close>

fun truthy :: "pyval \<Rightarrow> bool" where
  "truthy PNone = False"
| "truthy (PInt n) = (n \<noteq> 0)"
| "truthy (PStr s) = (s \<noteq> [])"
| "truthy (PList xs) = (xs \<noteq> [])"

text \<open>\<^verbatim>\<open>d.get(k)\<close> gives \<^verbatim>\<open>None\<close> for a missing key, \<^verbatim>\<open>d.get(k, dflt)\<close> gives \<^verbatim>\<open>dflt\<close>.\<close>

definition dict_get :: "company \<Rightarrow> string \<Rightarrow> pyval" where
  "dict_get d k = (case d k of None \<Rightarrow> PNone | Some v \<Rightarrow> v)"

definition dict_get_default :: "company \<Rightarrow> string \<Rightarrow> pyval \<Rightarrow> pyval" where
  "dict_get_default d k dflt = (case d k of None \<Rightarrow> dflt | Some v \<Rightarrow> v)"

text \<open>
  Lists and sets of Python may only be hashed when they hold no list: \<^verbatim>\<open>hash([])\<close>
  raises \<^verbatim>\<open>TypeError\<close>.
\<close>

fun hashable :: "pyval \<Rightarrow> bool" where
  "hashable (PList xs) = False"
| "hashable v = True"

section \<open>Name normalisation\<close>

text \<open>
  Character classes of Python 3 on code points below 256: \<^verbatim>\<open>str.isspace\<close> and the
  regular expression class \<^verbatim>\<open>\s\<close> agree there; \<^verbatim>\<open>\w\<close> is \<^verbatim>\<open>str.isalnum\<close> or the
  underscore; \<^verbatim>\<open>str.lower\<close> moves the upper-case letters by 32.
\<close>

definition is_space :: "char \<Rightarrow> bool" where
  "is_space c = (let n = (of_char c :: nat) in
     (9 \<le> n \<and> n \<le> 13) \<or> (28 \<le> n \<and> n \<le> 32) \<or> n = 133 \<or> n = 160)"

definition is_word :: "char \<Rightarrow> bool" where
  "is_word c = (let n = (of_char c :: nat) in
     (48 \<le> n \<and> n \<le> 57) \<or> (65 \<le> n \<and> n \<le> 90) \<or> n = 95 \<or> (97 \<le> n \<and> n \<le> 122) \<or>
     n = 170 \<or> n = 178 \<or> n = 179 \<or> n = 181 \<or> n = 185 \<or> n = 186 \<or>
     (188 \<le> n \<and> n \<le> 190) \<or> (192 \<le> n \<and> n \<le> 214) \<or> (216 \<le> n \<and> n \<le> 246) \<or>
     (248 \<le> n \<and> n \<le> 255))"

definition lower_char :: "char \<Rightarrow> char" where
  "lower_char c = (let n = (of_char c :: nat) in
     if (65 \<le> n \<and> n \<le> 90) \<or> (192 \<le> n \<and> n \<le> 222 \<and> n \<noteq> 215)
     then char_of (n + 32) else c)"

definition lower :: "string \<Rightarrow> string" where
  "lower s = map lower_char s"

definition strip :: "string \<Rightarrow> string" where
  "strip s = rev (dropWhile is_space (rev (dropWhile is_space s)))"

text \<open>
  The suffix patterns of \<^verbatim>\<open>COMPANY_SUFFIXES\<close> are built from four items only: a
  literal character (compared without case, the patterns are used with
  \<^verbatim>\<open>re.IGNORECASE\<close>), an optional literal character (\<^verbatim>\<open>,?\<close>, \<^verbatim>\<open>\.?\<close>, \<^verbatim>\<open>s?\<close>), and
  \<^verbatim>\<open>\s*\<close>; every pattern ends with \<^verbatim>\<open>$\<close>, which is kept implicit.
\<close>

datatype rx = Lit char | Opt char | Spaces

text \<open>
  \<open>rx_match p s\<close>: the pattern \<open>p\<close> followed by \<^verbatim>\<open>$\<close> matches at the start of \<open>s\<close>.
  Without \<^verbatim>\<open>re.MULTILINE\<close>, \<^verbatim>\<open>$\<close> holds at the end of the string and just before a
  newline that ends the string.
\<close>

fun rx_match :: "rx list \<Rightarrow> string \<Rightarrow> bool" where
  "rx_match [] s = (s = [] \<or> s = [CHR 0x0A])"
| "rx_match (Lit c # p) [] = False"
| "rx_match (Lit c # p) (x # xs) = (lower_char x = lower_char c \<and> rx_match p xs)"
| "rx_match (Opt c # p) [] = rx_match p []"
| "rx_match (Opt c # p) (x # xs) =
     ((lower_char x = lower_char c \<and> rx_match p xs) \<or> rx_match p (x # xs))"
| "rx_match (Spaces # p) [] = rx_match p []"
| "rx_match (Spaces # p) (x # xs) =
     ((is_space x \<and> rx_match (Spaces # p) xs) \<or> rx_match p (x # xs))"

text \<open>
  \<^verbatim>\<open>re.sub(pattern, "", s)\<close> for such a pattern: the leftmost position where the pattern
  matches is found, and the text from there on is removed. Every pattern ends in a
  letter or an optional dot before \<^verbatim>\<open>$\<close>, so a match never takes a final newline: it
  is left in place.
\<close>

fun rx_sub :: "rx list \<Rightarrow> string \<Rightarrow> string" where
  "rx_sub p [] = []"
| "rx_sub p (x # xs) =
     (if rx_match p (x # xs) then (if last (x # xs) = CHR 0x0A then [CHR 0x0A] else [])
      else x # rx_sub p xs)"

definition suffix_rx :: "rx list \<Rightarrow> rx list" where
  "suffix_rx w = [Spaces, Opt CHR '','', Spaces] @ w"

definition lits :: "string \<Rightarrow> rx list" where
  "lits s = map Lit s"

definition COMPANY_SUFFIXES :: "rx list list" where
  "COMPANY_SUFFIXES = map suffix_rx
    [lits ''inc'' @ [Opt CHR ''.''],
     lits ''llc'' @ [Opt CHR ''.''],
     lits ''ltd'' @ [Opt CHR ''.''],
     lits ''corp'' @ [Opt CHR ''.''],
     lits ''corporation'',
     lits ''incorporated'',
     lits ''limited'',
     [Lit CHR ''l'', Opt CHR ''.'', Lit CHR ''l'', Opt CHR ''.'', Lit CHR ''c'', Opt CHR ''.''],
     lits ''company'',
     lits ''co'' @ [Opt CHR ''.''],
     lits ''holding'' @ [Opt CHR ''s''],
     lits ''group'',
     lits ''partner'' @ [Opt CHR ''s''],
     lits ''venture'' @ [Opt CHR ''s''],
     lits ''capital'',
     lits ''fund'',
     lits ''lp'',
     [Lit CHR ''l'', Opt CHR ''.'', Lit CHR ''p'', Opt CHR ''.'']]"

text \<open>\<^verbatim>\<open>re.sub(r'\s+', ' ', s)\<close>: every maximal run of white space becomes one space.\<close>

function collapse_spaces :: "string \<Rightarrow> string" where
  "collapse_spaces [] = []"
| "collapse_spaces (x # xs) =
     (if is_space x then CHR '' '' # collapse_spaces (dropWhile is_space xs)
      else x # collapse_spaces xs)"
  by pat_completeness auto
termination
  by (relation "measure length") (auto simp: length_dropWhile_le less_Suc_eq_le)

text \<open>
  \<^verbatim>\<open>_normalize_company_name\<close> on a string: lower case and strip, remove the suffixes
  one pattern after the other, drop what is neither \<^verbatim>\<open>\w\<close> nor \<^verbatim>\<open>\s\<close>, collapse white
  space and strip again.
\<close>

definition normalize_str :: "string \<Rightarrow> string" where
  "normalize_str name =
     strip (collapse_spaces (filter (\<lambda>c. is_word c \<or> is_space c)
       (foldl (\<lambda>normalized pattern. rx_sub pattern normalized) (strip (lower name))
          COMPANY_SUFFIXES)))"

text \<open>
  The argument is whatever the record holds under \<^verbatim>\<open>company_name\<close>. A falsy value
  gives the empty string; any other value that is not a string has no method
  \<^verbatim>\<open>lower\<close>, and the call raises \<^verbatim>\<open>AttributeError\<close>.
\<close>

definition normalize_company_name :: "pyval \<Rightarrow> error + string" where
  "normalize_company_name name =
     (if \<not> truthy name then Inr []
      else case name of PStr s \<Rightarrow> Inr (normalize_str s) | _ \<Rightarrow> Inl AttributeError)"

section \<open>Similarity of two normalised names\<close>

text \<open>
  Modelled from the spec: \<^verbatim>\<open>fuzz.token_sort_ratio\<close> belongs to the library
  \<^verbatim>\<open>rapidfuzz\<close>, which the module imports and which is not part of the sources.
  Section 4.2 of the specification asks for the standard token sort ratio: both
  strings are split at white space, the tokens are sorted lexicographically and joined
  again with one space, and the score is \<open>100 * (1 - d / (l1 + l2))\<close>, where \<open>d\<close> is an
  edit distance of the two joined strings and \<open>l1\<close>, \<open>l2\<close> are their lengths. The
  distance of the standard ratio counts the insertions and deletions of single
  characters, so that replacing a character costs 2: this is \<open>indel_distance\<close>, the
  distance of the model. The library splits a string of code points below 256 at the
  white space of ASCII only. Two strings without any token score 100. Scores are real
  numbers.
\<close>

definition is_token_space :: "char \<Rightarrow> bool" where
  "is_token_space c = (let n = (of_char c :: nat) in (9 \<le> n \<and> n \<le> 13) \<or> (28 \<le> n \<and> n \<le> 32))"

fun split_tokens :: "string \<Rightarrow> string \<Rightarrow> string list" where
  "split_tokens cur [] = (if cur = [] then [] else [cur])"
| "split_tokens cur (x # xs) =
     (if is_token_space x
      then (if cur = [] then split_tokens [] xs else cur # split_tokens [] xs)
      else split_tokens (cur @ [x]) xs)"

definition tokens :: "string \<Rightarrow> string list" where
  "tokens s = split_tokens [] s"

fun join_tokens :: "string list \<Rightarrow> string" where
  "join_tokens [] = []"
| "join_tokens [t] = t"
| "join_tokens (t # ts) = t @ CHR '' '' # join_tokens ts"

fun indel_distance :: "string \<Rightarrow> string \<Rightarrow> nat" where
  "indel_distance [] ys = length ys"
| "indel_distance (x # xs) [] = Suc (length xs)"
| "indel_distance (x # xs) (y # ys) =
     min (Suc (indel_distance xs (y # ys)))
       (min (Suc (indel_distance (x # xs) ys))
            ((if x = y then 0 else 2) + indel_distance xs ys))"

definition token_sort_ratio :: "string \<Rightarrow> string \<Rightarrow> real" where
  "token_sort_ratio a b =
     (let s1 = join_tokens (sort (tokens a));
          s2 = join_tokens (sort (tokens b));
          l = length s1 + length s2
      in if l = 0 then 100
         else 100 * (1 - real (indel_distance s1 s2) / real l))"

text \<open>
  The distance that the formula of section 4.2 names in words, the Levenshtein
  distance with cost 1 for an insertion, a deletion and a replacement. The program
  does not compute it; it is here to compare the formula as worded with the score of
  the program.
\<close>

fun levenshtein :: "string \<Rightarrow> string \<Rightarrow> nat" where
  "levenshtein [] ys = length ys"
| "levenshtein (x # xs) [] = Suc (length xs)"
| "levenshtein (x # xs) (y # ys) =
     min (Suc (levenshtein xs (y # ys)))
       (min (Suc (levenshtein (x # xs) ys))
            ((if x = y then 0 else 1) + levenshtein xs ys))"

text \<open>
  \<^verbatim>\<open>_calculate_similarity\<close>. The library function is a parameter \<open>tsr\<close> of the model;
  the two early returns are the module's own.
\<close>

definition calculate_similarity :: "(string \<Rightarrow> string \<Rightarrow> real) \<Rightarrow> string \<Rightarrow> string \<Rightarrow> real" where
  "calculate_similarity tsr name1 name2 =
     (if name1 = [] \<or> name2 = [] then 0
      else if name1 = name2 then 100
      else tsr name1 name2)"

section \<open>Grouping\<close>

definition FUZZY_MATCH_THRESHOLD :: real where
  "FUZZY_MATCH_THRESHOLD = 85"

text \<open>
  The list comprehension of \<^verbatim>\<open>_group_similar_companies\<close>: every record is paired
  with its normalised name; the first name that cannot be normalised raises.
\<close>

fun normalized_names :: "company list \<Rightarrow> error + (string \<times> company) list" where
  "normalized_names [] = Inr []"
| "normalized_names (c # cs) =
     (case normalize_company_name (dict_get_default c ''company_name'' (PStr [])) of
        Inl e \<Rightarrow> Inl e
      | Inr n \<Rightarrow> (case normalized_names cs of
                   Inl e \<Rightarrow> Inl e
                 | Inr r \<Rightarrow> Inr ((n, c) # r)))"

text \<open>
  The inner loop over \<^verbatim>\<open>enumerate(normalized_names)\<close>: its state is the group under
  construction and the set \<^verbatim>\<open>used\<close>; \<open>norm_name_i\<close> is the name of the record that
  opened the group.
\<close>

fun group_inner_loop ::
  "(string \<Rightarrow> string \<Rightarrow> real) \<Rightarrow> string \<Rightarrow> (nat \<times> string \<times> company) list \<Rightarrow>
   company list \<times> nat set \<Rightarrow> company list \<times> nat set" where
  "group_inner_loop tsr norm_name_i [] (grp, used) = (grp, used)"
| "group_inner_loop tsr norm_name_i ((j, norm_name_j, company_j) # rest) (grp, used) =
     (if j \<in> used then group_inner_loop tsr norm_name_i rest (grp, used)
      else if calculate_similarity tsr norm_name_i norm_name_j \<ge> FUZZY_MATCH_THRESHOLD
      then group_inner_loop tsr norm_name_i rest (grp @ [company_j], insert j used)
      else group_inner_loop tsr norm_name_i rest (grp, used))"

text \<open>
  The outer loop: \<open>names\<close> is the whole enumerated list (scanned again by every inner
  loop), the third argument is what the outer loop still has to visit.
\<close>

fun group_outer_loop ::
  "(string \<Rightarrow> string \<Rightarrow> real) \<Rightarrow> (nat \<times> string \<times> company) list \<Rightarrow>
   (nat \<times> string \<times> company) list \<Rightarrow> company list list \<times> nat set \<Rightarrow> company list list" where
  "group_outer_loop tsr names [] (groups, used) = groups"
| "group_outer_loop tsr names ((i, norm_name_i, company_i) # rest) (groups, used) =
     (if i \<in> used then group_outer_loop tsr names rest (groups, used)
      else case group_inner_loop tsr norm_name_i names ([company_i], insert i used) of
             (grp, used') \<Rightarrow> group_outer_loop tsr names rest (groups @ [grp], used'))"

definition group_similar_companies ::
  "(string \<Rightarrow> string \<Rightarrow> real) \<Rightarrow> company list \<Rightarrow> error + company list list" where
  "group_similar_companies tsr companies =
     (if companies = [] then Inr []
      else case normalized_names companies of
             Inl e \<Rightarrow> Inl e
           | Inr names \<Rightarrow>
               Inr (group_outer_loop tsr (enumerate 0 names) (enumerate 0 names) ([], {})))"

section \<open>Merging a group\<close>

definition source_priority :: "(string \<times> nat) list" where
  "source_priority =
     [(''SEC Form D'', 0), (''TechCrunch'', 1), (''VentureBeat'', 2), (''CB Insights'', 3),
      (''PitchBook'', 4), (''Founder Collective Portfolio'', 5)]"

text \<open>
  The sort key \<^verbatim>\<open>source_priority.get(x.get("source", ""), 999)\<close>. The dictionary
  lookup hashes its key, so a list under \<^verbatim>\<open>source\<close> raises \<^verbatim>\<open>TypeError\<close>.
\<close>

definition priority_key :: "company \<Rightarrow> error + nat" where
  "priority_key x =
     (case dict_get_default x ''source'' (PStr []) of
        PList xs \<Rightarrow> Inl TypeError
      | PStr s \<Rightarrow> Inr (case map_of source_priority s of Some p \<Rightarrow> p | None \<Rightarrow> 999)
      | _ \<Rightarrow> Inr 999)"

fun priority_keys :: "company list \<Rightarrow> error + (nat \<times> company) list" where
  "priority_keys [] = Inr []"
| "priority_keys (c # cs) =
     (case priority_key c of
        Inl e \<Rightarrow> Inl e
      | Inr k \<Rightarrow> (case priority_keys cs of
                   Inl e \<Rightarrow> Inl e
                 | Inr r \<Rightarrow> Inr ((k, c) # r)))"

text \<open>
  \<^verbatim>\<open>sorted(group, key=...)\<close> computes every key and sorts stably by the keys alone;
  \<open>sort_key\<close> is the stable insertion sort.
\<close>

definition sorted_by_priority :: "company list \<Rightarrow> error + company list" where
  "sorted_by_priority grp =
     (case priority_keys grp of
        Inl e \<Rightarrow> Inl e
      | Inr keyed \<Rightarrow> Inr (map snd (sort_key fst keyed)))"

text \<open>
  \<^verbatim>\<open>list(set(c.get("source", "") for c in group if c.get("source")))\<close>. The order in
  which Python lists the elements of a set is not fixed by the language; the model
  takes the enumeration \<open>enum\<close> as a parameter, from the sequence that fills the set to
  the resulting list. Every truthy source has been hashed by the sort before, so no
  error is left here.
\<close>

definition all_sources :: "(pyval list \<Rightarrow> pyval list) \<Rightarrow> company list \<Rightarrow> pyval list" where
  "all_sources enum grp =
     enum (map (\<lambda>c. dict_get_default c ''source'' (PStr []))
             (filter (\<lambda>c. truthy (dict_get c ''source'')) grp))"

text \<open>What a Python enumeration of a set always satisfies.\<close>

definition set_enumeration :: "(pyval list \<Rightarrow> pyval list) \<Rightarrow> bool" where
  "set_enumeration enum = (\<forall>xs. distinct (enum xs) \<and> set (enum xs) = set xs)"

text \<open>
  \<^verbatim>\<open>if not merged.get(k) and company.get(k): merged[k] = company[k]\<close>, the shape of
  six of the updates in the loop.
\<close>

definition fill_missing :: "string \<Rightarrow> company \<Rightarrow> company \<Rightarrow> company" where
  "fill_missing k merged company =
     (if \<not> truthy (dict_get merged k) \<and> truthy (dict_get company k)
      then merged(k \<mapsto> dict_get company k) else merged)"

text \<open>
  Iterating over a value (\<^verbatim>\<open>set(v)\<close>, \<^verbatim>\<open>for inv in v\<close>): a list gives its elements, a
  string its characters, \<^verbatim>\<open>None\<close> and integers raise \<^verbatim>\<open>TypeError\<close>.
\<close>

definition iter_values :: "pyval \<Rightarrow> error + pyval list" where
  "iter_values v =
     (case v of
        PList xs \<Rightarrow> Inr xs
      | PStr s \<Rightarrow> Inr (map (\<lambda>c. PStr [c]) s)
      | _ \<Rightarrow> Inl TypeError)"

text \<open>
  The loop \<^verbatim>\<open>for inv in new_investors\<close>. Its state is the merged record and the set
  \<^verbatim>\<open>existing_investors\<close>. The test \<^verbatim>\<open>inv not in existing_investors\<close> hashes the investor;
  \<^verbatim>\<open>merged.setdefault("investors", []).append(inv)\<close> needs a list under the key.
\<close>

fun add_investors :: "pyval list \<Rightarrow> company \<times> pyval set \<Rightarrow> error + company \<times> pyval set" where
  "add_investors [] (merged, existing_investors) = Inr (merged, existing_investors)"
| "add_investors (investor # invs) (merged, existing_investors) =
     (if \<not> truthy investor then add_investors invs (merged, existing_investors)
      else if \<not> hashable investor then Inl TypeError
      else if investor \<in> existing_investors then add_investors invs (merged, existing_investors)
      else case merged ''investors'' of
             None \<Rightarrow> add_investors invs
                       (merged(''investors'' \<mapsto> PList [investor]), insert investor existing_investors)
           | Some (PList xs) \<Rightarrow> add_investors invs
                       (merged(''investors'' \<mapsto> PList (xs @ [investor])), insert investor existing_investors)
           | Some _ \<Rightarrow> Inl AttributeError)"

definition merge_investors :: "company \<Rightarrow> company \<Rightarrow> error + company" where
  "merge_investors merged company =
     (case iter_values (dict_get_default merged ''investors'' (PList [])) of
        Inl e \<Rightarrow> Inl e
      | Inr existing \<Rightarrow>
          (if \<not> list_all hashable existing then Inl TypeError
           else let new_investors = dict_get_default company ''investors'' (PList []) in
             (if \<not> truthy new_investors then Inr merged
              else (case iter_values new_investors of
                      Inl e \<Rightarrow> Inl e
                    | Inr invs \<Rightarrow> (case add_investors invs (merged, set existing) of
                                    Inl e \<Rightarrow> Inl e
                                  | Inr (merged', existing') \<Rightarrow> Inr merged')))))"

definition merge_funding_round :: "company \<Rightarrow> company \<Rightarrow> company" where
  "merge_funding_round merged company =
     (if dict_get merged ''funding_round'' \<in> set [PStr ''Unknown'', PStr ''Equity'', PNone]
         \<and> truthy (dict_get company ''funding_round'')
      then (if dict_get company ''funding_round'' \<notin> set [PStr ''Unknown'', PNone]
            then merged(''funding_round'' \<mapsto> dict_get company ''funding_round'')
            else merged)
      else merged)"

text \<open>One pass of the loop \<^verbatim>\<open>for company in sorted_group[1:]\<close>, in the source's order.\<close>

definition merge_record :: "company \<Rightarrow> company \<Rightarrow> error + company" where
  "merge_record merged company =
     (case merge_investors
             (fill_missing ''description''
                (fill_missing ''company_website'' merged company) company) company of
        Inl e \<Rightarrow> Inl e
      | Inr m \<Rightarrow>
          Inr (fill_missing ''funding_amount''
                (fill_missing ''ceo_name''
                  (fill_missing ''location''
                    (fill_missing ''industry''
                      (merge_funding_round m company) company) company) company) company))"

fun merge_loop :: "company \<Rightarrow> company list \<Rightarrow> error + company" where
  "merge_loop merged [] = Inr merged"
| "merge_loop merged (company # rest) =
     (case merge_record merged company of
        Inl e \<Rightarrow> Inl e
      | Inr merged' \<Rightarrow> merge_loop merged' rest)"

text \<open>
  \<^verbatim>\<open>_merge_company_group\<close>: \<^verbatim>\<open>None\<close> for an empty group, the record itself for a
  group of one, and otherwise the copy of the first record in priority order, with
  the key \<^verbatim>\<open>sources\<close> set, folded over the other records. The appended investors
  also reach the list object of the first record, which the copy shares; the model
  gives the returned record only.
\<close>

fun merge_company_group ::
  "(pyval list \<Rightarrow> pyval list) \<Rightarrow> company list \<Rightarrow> error + company option" where
  "merge_company_group enum [] = Inr None"
| "merge_company_group enum [c] = Inr (Some c)"
| "merge_company_group enum grp =
     (case sorted_by_priority grp of
        Inl e \<Rightarrow> Inl e
      | Inr [] \<Rightarrow> Inl IndexError
      | Inr (first # others) \<Rightarrow>
          (case merge_loop (first(''sources'' \<mapsto> PList (all_sources enum grp))) others of
             Inl e \<Rightarrow> Inl e
           | Inr merged \<Rightarrow> Inr (Some merged)))"

section \<open>Deduplication and its statistics\<close>

text \<open>\<^verbatim>\<open>if merged:\<close> on the result of a merge: \<^verbatim>\<open>None\<close> and the empty dictionary are falsy.\<close>

definition truthy_record :: "company option \<Rightarrow> bool" where
  "truthy_record m = (case m of None \<Rightarrow> False | Some d \<Rightarrow> d \<noteq> Map.empty)"

fun merge_groups ::
  "(pyval list \<Rightarrow> pyval list) \<Rightarrow> company list list \<Rightarrow> company list \<Rightarrow> error + company list" where
  "merge_groups enum [] deduplicated = Inr deduplicated"
| "merge_groups enum (grp # rest) deduplicated =
     (case merge_company_group enum grp of
        Inl e \<Rightarrow> Inl e
      | Inr merged \<Rightarrow>
          merge_groups enum rest
            (if truthy_record merged then deduplicated @ [the merged] else deduplicated))"

text \<open>\<^verbatim>\<open>deduplicate_companies\<close>; what it prints is not part of the model.\<close>

definition deduplicate_companies ::
  "(string \<Rightarrow> string \<Rightarrow> real) \<Rightarrow> (pyval list \<Rightarrow> pyval list) \<Rightarrow> company list \<Rightarrow>
   error + company list" where
  "deduplicate_companies tsr enum companies =
     (if companies = [] then Inr []
      else case group_similar_companies tsr companies of
             Inl e \<Rightarrow> Inl e
           | Inr grouped \<Rightarrow> merge_groups enum grouped [])"

record dedup_stats =
  original_count :: int
  deduplicated_count :: int
  duplicates_removed :: int
  companies_with_merged_sources :: int
  original_by_source :: "pyval \<rightharpoonup> int"

text \<open>The counting loop: the source is a dictionary key and is hashed.\<close>

fun count_by_source :: "company list \<Rightarrow> (pyval \<rightharpoonup> int) \<Rightarrow> error + (pyval \<rightharpoonup> int)" where
  "count_by_source [] by_source = Inr by_source"
| "count_by_source (c # cs) by_source =
     (let source = dict_get_default c ''source'' (PStr ''Unknown'') in
      if \<not> hashable source then Inl TypeError
      else count_by_source cs
             (by_source(source \<mapsto> (case by_source source of None \<Rightarrow> 0 | Some n \<Rightarrow> n) + 1)))"

text \<open>\<^verbatim>\<open>len(v)\<close>: defined on lists and strings.\<close>

definition py_len :: "pyval \<Rightarrow> error + nat" where
  "py_len v = (case v of PList xs \<Rightarrow> Inr (length xs) | PStr s \<Rightarrow> Inr (length s)
               | _ \<Rightarrow> Inl TypeError)"

text \<open>\<^verbatim>\<open>sum(1 for c in deduped if len(c.get("sources", [])) > 1)\<close>.\<close>

fun merged_count :: "company list \<Rightarrow> error + int" where
  "merged_count [] = Inr 0"
| "merged_count (c # cs) =
     (case py_len (dict_get_default c ''sources'' (PList [])) of
        Inl e \<Rightarrow> Inl e
      | Inr n \<Rightarrow> (case merged_count cs of
                   Inl e \<Rightarrow> Inl e
                 | Inr k \<Rightarrow> Inr ((if n > 1 then 1 else 0) + k)))"

definition get_dedup_stats :: "company list \<Rightarrow> company list \<Rightarrow> error + dedup_stats" where
  "get_dedup_stats original deduped =
     (case count_by_source original Map.empty of
        Inl e \<Rightarrow> Inl e
      | Inr by_source \<Rightarrow>
          (case merged_count deduped of
             Inl e \<Rightarrow> Inl e
           | Inr m \<Rightarrow>
               Inr \<lparr> original_count = int (length original),
                     deduplicated_count = int (length deduped),
                     duplicates_removed = int (length original) - int (length deduped),
                     companies_with_merged_sources = m,
                     original_by_source = by_source \<rparr>))"

section \<open>Notions used in the statements\<close>

text \<open>
  The sort key of a record as a number; it is the key itself whenever the key can be
  computed.
\<close>

definition prio :: "company \<Rightarrow> nat" where
  "prio c = (case priority_key c of Inr k \<Rightarrow> k | Inl e \<Rightarrow> 0)"

text \<open>
  Going through a list of values and appending, in order, every truthy value that is
  not yet in the accumulated list.
\<close>

fun append_new :: "pyval list \<Rightarrow> pyval list \<Rightarrow> pyval list" where
  "append_new acc [] = acc"
| "append_new acc (v # vs) =
     (if truthy v \<and> v \<notin> set acc then append_new (acc @ [v]) vs else append_new acc vs)"

text \<open>
  The values that the loop \<^verbatim>\<open>for inv in new_investors\<close> visits for a record: none when
  what the record holds under \<^verbatim>\<open>investors\<close> is falsy or missing.
\<close>

definition investors_of :: "company \<Rightarrow> pyval list" where
  "investors_of c =
     (let v = dict_get_default c ''investors'' (PList []) in
      if \<not> truthy v then []
      else case iter_values v of Inr vs \<Rightarrow> vs | Inl e \<Rightarrow> [])"

text \<open>A record whose name normalises to the empty string.\<close>

definition unnamed :: "company \<Rightarrow> bool" where
  "unnamed r =
     (normalize_company_name (dict_get_default r ''company_name'' (PStr [])) = Inr [])"

text \<open>The length of a longest common subsequence of two strings.\<close>

fun lcs_length :: "string \<Rightarrow> string \<Rightarrow> nat" where
  "lcs_length [] ys = 0"
| "lcs_length (x # xs) [] = 0"
| "lcs_length (x # xs) (y # ys) =
     max (lcs_length xs (y # ys))
       (max (lcs_length (x # xs) ys)
            ((if x = y then 1 else 0) + lcs_length xs ys))"

section \<open>Facts about one pass of the merge loop\<close>

lemma dict_get_upd: "dict_get (m(k \<mapsto> v)) k' = (if k' = k then v else dict_get m k')"
  by (simp add: dict_get_def)

lemma dict_get_cong: "m' k = m k \<Longrightarrow> dict_get m' k = dict_get m k"
  by (simp add: dict_get_def)

lemma fill_missing_apply:
  "fill_missing k m c k' =
     (if k' = k \<and> \<not> truthy (dict_get m k) \<and> truthy (dict_get c k)
      then Some (dict_get c k) else m k')"
  by (simp add: fill_missing_def)

lemma merge_funding_round_apply:
  "merge_funding_round m c k =
     (if k = ''funding_round''
         \<and> dict_get m ''funding_round'' \<in> {PStr ''Unknown'', PStr ''Equity'', PNone}
         \<and> truthy (dict_get c ''funding_round'')
         \<and> dict_get c ''funding_round'' \<noteq> PStr ''Unknown''
      then Some (dict_get c ''funding_round'') else m k)"
  by (auto simp: merge_funding_round_def)

lemma add_investors_other_keys:
  "add_investors invs (m, ex) = Inr (m', ex') \<Longrightarrow> k \<noteq> ''investors'' \<Longrightarrow> m' k = m k"
proof (induction invs arbitrary: m ex)
  case Nil
  then show ?case by simp
next
  case (Cons v invs)
  then show ?case
    by (auto split: if_splits option.splits pyval.splits)
qed

lemma merge_investors_other_keys:
  "merge_investors m c = Inr m' \<Longrightarrow> k \<noteq> ''investors'' \<Longrightarrow> m' k = m k"
  by (auto simp: merge_investors_def Let_def split: sum.splits if_splits
      dest: add_investors_other_keys)

lemma merge_record_fill_keys:
  assumes "merge_record merged company = Inr merged'"
    and "k \<noteq> ''funding_round''" and "k \<noteq> ''investors''"
  shows "merged' k =
     (if k \<in> {''company_website'', ''description'', ''industry'', ''location'', ''ceo_name'',
              ''funding_amount''}
         \<and> \<not> truthy (dict_get merged k) \<and> truthy (dict_get company k)
      then Some (dict_get company k) else merged k)"
proof -
  from assms obtain m where
    mi: "merge_investors (fill_missing ''description''
           (fill_missing ''company_website'' merged company) company) company = Inr m"
    and m': "merged' = fill_missing ''funding_amount''
                (fill_missing ''ceo_name''
                  (fill_missing ''location''
                    (fill_missing ''industry''
                      (merge_funding_round m company) company) company) company) company"
    by (auto simp: merge_record_def split: sum.splits)
  have mk: "\<And>k. k \<noteq> ''investors'' \<Longrightarrow> m k = fill_missing ''description''
           (fill_missing ''company_website'' merged company) company k"
    using merge_investors_other_keys [OF mi] by simp
  have dg: "\<And>k. k \<noteq> ''investors'' \<Longrightarrow> dict_get m k = dict_get (fill_missing ''description''
           (fill_missing ''company_website'' merged company) company) k"
    by (rule dict_get_cong) (rule mk)
  show ?thesis
    unfolding m' using assms(2,3)
    by (auto simp: fill_missing_apply merge_funding_round_apply mk dg dict_get_def)
qed

section \<open>The stable sort by priority\<close>

lemma hd_insort_key:
  "hd (insort_key f x ys) = (if ys = [] \<or> f x \<le> f (hd ys) then x else hd ys)"
  by (cases ys) auto

lemma hd_sort_key_first_min:
  "xs \<noteq> [] \<Longrightarrow>
   \<exists>i<length xs. hd (sort_key f xs) = xs ! i \<and>
     (\<forall>j<length xs. f (xs ! i) \<le> f (xs ! j) \<and> (j < i \<longrightarrow> f (xs ! i) < f (xs ! j)))"
proof (induction xs)
  case Nil
  then show ?case by simp
next
  case (Cons x xs)
  show ?case
  proof (cases "xs = []")
    case True
    then show ?thesis by simp
  next
    case False
    with Cons.IH obtain i where i: "i < length xs" "hd (sort_key f xs) = xs ! i"
      and mn: "\<forall>j<length xs. f (xs ! i) \<le> f (xs ! j) \<and> (j < i \<longrightarrow> f (xs ! i) < f (xs ! j))"
      by blast
    have ne: "sort_key f xs \<noteq> []" using False by (metis length_0_conv length_sort)
    show ?thesis
    proof (cases "f x \<le> f (xs ! i)")
      case True
      have "hd (sort_key f (x # xs)) = (x # xs) ! 0"
        using True i ne by (simp add: hd_insort_key)
      moreover have "\<forall>j<length (x # xs). f ((x # xs) ! 0) \<le> f ((x # xs) ! j)"
      proof (intro allI impI)
        fix j assume "j < length (x # xs)"
        then show "f ((x # xs) ! 0) \<le> f ((x # xs) ! j)"
          using True mn by (cases j) (auto intro: order_trans)
      qed
      ultimately show ?thesis by (intro exI [of _ 0]) simp
    next
      case False
      have h: "hd (sort_key f (x # xs)) = (x # xs) ! Suc i"
        using False i ne by (simp add: hd_insort_key)
      have "\<forall>j<length (x # xs). f ((x # xs) ! Suc i) \<le> f ((x # xs) ! j) \<and>
              (j < Suc i \<longrightarrow> f ((x # xs) ! Suc i) < f ((x # xs) ! j))"
      proof (intro allI impI)
        fix j assume "j < length (x # xs)"
        then show "f ((x # xs) ! Suc i) \<le> f ((x # xs) ! j) \<and>
              (j < Suc i \<longrightarrow> f ((x # xs) ! Suc i) < f ((x # xs) ! j))"
          using False mn by (cases j) auto
      qed
      with h i show ?thesis by (intro exI [of _ "Suc i"]) simp
    qed
  qed
qed

lemma sort_key_decorate:
  "sort_key fst (map (\<lambda>c. (f c, c)) xs) = map (\<lambda>c. (f c, c)) (sort_key f xs)"
proof (induction xs)
  case Nil
  then show ?case by simp
next
  case (Cons x xs)
  have ins: "\<And>ys. insort_key fst (f x, x) (map (\<lambda>c. (f c, c)) ys)
               = map (\<lambda>c. (f c, c)) (insort_key f x ys)"
  proof -
    fix ys show "insort_key fst (f x, x) (map (\<lambda>c. (f c, c)) ys)
               = map (\<lambda>c. (f c, c)) (insort_key f x ys)"
      by (induction ys) auto
  qed
  show ?case using Cons by (simp add: ins)
qed


lemma priority_keys_Inr:
  "priority_keys grp = Inr keyed \<Longrightarrow>
   keyed = map (\<lambda>c. (prio c, c)) grp \<and> (\<forall>c\<in>set grp. priority_key c = Inr (prio c))"
  by (induction grp arbitrary: keyed) (auto simp: prio_def split: sum.splits)

lemma sorted_by_priority_Inr:
  "sorted_by_priority grp = Inr s \<Longrightarrow>
   s = sort_key prio grp \<and> (\<forall>c\<in>set grp. priority_key c = Inr (prio c))"
  by (auto simp: sorted_by_priority_def sort_key_decorate comp_def
      split: sum.splits dest!: priority_keys_Inr)

section \<open>Facts about the whole merge\<close>


lemma merge_loop_untouched:
  "merge_loop merged rest = Inr m' \<Longrightarrow>
   k \<notin> {''company_website'', ''description'', ''investors'', ''funding_round'', ''industry'',
         ''location'', ''ceo_name'', ''funding_amount''} \<Longrightarrow> m' k = merged k"
proof (induction rest arbitrary: merged)
  case Nil
  then show ?case by simp
next
  case (Cons c rest)
  from Cons.prems(1) obtain m1 where s: "merge_record merged c = Inr m1"
    and l: "merge_loop m1 rest = Inr m'"
    by (auto split: sum.splits)
  have "m1 k = merged k"
    using merge_record_fill_keys [OF s, of k] Cons.prems(2) by simp
  with Cons.IH [OF l Cons.prems(2)] show ?case by simp
qed

lemma merge_company_group_multi:
  assumes "merge_company_group enum grp = Inr (Some m)" and "2 \<le> length grp"
  shows "\<exists>first others. sorted_by_priority grp = Inr (first # others) \<and>
           merge_loop (first(''sources'' \<mapsto> PList (all_sources enum grp))) others = Inr m"
proof -
  from assms(2) obtain a b rest where g: "grp = a # b # rest"
    by (cases grp; cases "tl grp") auto
  show ?thesis
    using assms(1) unfolding g
    by (auto split: sum.splits list.splits)
qed

lemma merged_sources:
  assumes "merge_company_group enum grp = Inr (Some m)" and "2 \<le> length grp"
  shows "m ''sources'' = Some (PList (all_sources enum grp))"
proof -
  from merge_company_group_multi [OF assms] obtain first others where
    l: "merge_loop (first(''sources'' \<mapsto> PList (all_sources enum grp))) others = Inr m"
    by blast
  show ?thesis
    using merge_loop_untouched [OF l, of "''sources''"] by simp
qed

section \<open>Accumulating investors\<close>

lemma append_new_append: "append_new acc (a @ b) = append_new (append_new acc a) b"
  by (induction a arbitrary: acc) auto

lemma remdups_snoc: "remdups (xs @ [v]) = filter (\<lambda>y. y \<noteq> v) (remdups xs) @ [v]"
  by (induction xs) auto

lemma first_seen_Cons:
  "rev (remdups (rev (v # l))) = v # rev (remdups (rev (filter (\<lambda>y. y \<noteq> v) l)))"
  by (simp add: remdups_snoc remdups_filter rev_filter)

lemma append_new_eq:
  "append_new acc vs =
     acc @ rev (remdups (rev (filter (\<lambda>v. truthy v \<and> v \<notin> set acc) vs)))"
proof (induction vs arbitrary: acc)
  case Nil
  then show ?case by simp
next
  case (Cons v vs)
  show ?case
  proof (cases "truthy v \<and> v \<notin> set acc")
    case True
    have "filter (\<lambda>y. y \<noteq> v) (filter (\<lambda>w. truthy w \<and> w \<notin> set acc) vs)
          = filter (\<lambda>w. truthy w \<and> w \<notin> set (acc @ [v])) vs"
      by (auto intro: filter_cong)
    then show ?thesis
      using True Cons.IH [of "acc @ [v]"] by (simp add: first_seen_Cons del: rev.simps remdups.simps)
  next
    case False
    then show ?thesis using Cons.IH [of acc] by auto
  qed
qed

lemma add_investors_list:
  assumes "add_investors invs (m, ex) = Inr (m', ex')"
    and "dict_get_default m ''investors'' (PList []) = PList cur"
    and "ex = set cur"
  shows "dict_get_default m' ''investors'' (PList []) = PList (append_new cur invs) \<and>
         ex' = set (append_new cur invs)"
  using assms
proof (induction invs arbitrary: m ex cur)
  case Nil
  then show ?case by simp
next
  case (Cons v invs)
  show ?case
  proof (cases "truthy v \<and> v \<notin> set cur")
    case False
    then have "add_investors invs (m, ex) = Inr (m', ex')"
      using Cons.prems(1,3) by (auto split: if_splits)
    from Cons.IH [OF this Cons.prems(2,3)] False show ?thesis by auto
  next
    case True
    then have h: "hashable v" using Cons.prems(1,3) by (auto split: if_splits)
    show ?thesis
    proof (cases "m ''investors''")
      case None
      then have c: "cur = []" using Cons.prems(2) by (simp add: dict_get_default_def)
      have "add_investors invs (m(''investors'' \<mapsto> PList [v]), insert v ex) = Inr (m', ex')"
        using Cons.prems(1,3) True h None by simp
      from Cons.IH [OF this, of "[v]"] c Cons.prems(3) True show ?thesis
        by (simp add: dict_get_default_def)
    next
      case (Some w)
      then have w: "w = PList cur" using Cons.prems(2) by (simp add: dict_get_default_def)
      have "add_investors invs (m(''investors'' \<mapsto> PList (cur @ [v])), insert v ex) = Inr (m', ex')"
        using Cons.prems(1,3) True h Some w by simp
      from Cons.IH [OF this, of "cur @ [v]"] Cons.prems(3) True show ?thesis
        by (simp add: dict_get_default_def)
    qed
  qed
qed

lemma merge_investors_list:
  assumes "merge_investors m c = Inr m'"
    and "dict_get_default m ''investors'' (PList []) = PList cur"
  shows "dict_get_default m' ''investors'' (PList []) = PList (append_new cur (investors_of c))"
proof (cases "truthy (dict_get_default c ''investors'' (PList []))")
  case False
  then have "m' = m" using assms by (auto simp: merge_investors_def Let_def iter_values_def split: if_splits)
  with False assms(2) show ?thesis by (simp add: investors_of_def)
next
  case True
  from assms True obtain invs ex' where
    it: "iter_values (dict_get_default c ''investors'' (PList [])) = Inr invs" and
    ad: "add_investors invs (m, set cur) = Inr (m', ex')"
    by (auto simp: merge_investors_def Let_def iter_values_def split: if_splits sum.splits)
  from add_investors_list [OF ad assms(2)] True it show ?thesis
    by (simp add: investors_of_def)
qed

lemma dict_get_default_cong: "m' k = m k \<Longrightarrow> dict_get_default m' k d = dict_get_default m k d"
  by (simp add: dict_get_default_def)

lemma merge_record_investors:
  assumes "merge_record merged company = Inr merged'"
    and "dict_get_default merged ''investors'' (PList []) = PList cur"
  shows "dict_get_default merged' ''investors'' (PList [])
         = PList (append_new cur (investors_of company))"
proof -
  from assms obtain m where
    mi: "merge_investors (fill_missing ''description''
           (fill_missing ''company_website'' merged company) company) company = Inr m"
    and m': "merged' = fill_missing ''funding_amount''
                (fill_missing ''ceo_name''
                  (fill_missing ''location''
                    (fill_missing ''industry''
                      (merge_funding_round m company) company) company) company) company"
    by (auto simp: merge_record_def split: sum.splits)
  have "dict_get_default (fill_missing ''description''
           (fill_missing ''company_website'' merged company) company) ''investors'' (PList [])
        = PList cur"
    using assms(2) by (simp add: dict_get_default_def fill_missing_apply)
  from merge_investors_list [OF mi this]
  have "dict_get_default m ''investors'' (PList []) = PList (append_new cur (investors_of company))" .
  moreover have "merged' ''investors'' = m ''investors''"
    unfolding m' by (simp add: fill_missing_apply merge_funding_round_apply)
  ultimately show ?thesis by (simp add: dict_get_default_def)
qed

lemma merge_loop_investors:
  "merge_loop merged rest = Inr m' \<Longrightarrow>
   dict_get_default merged ''investors'' (PList []) = PList cur \<Longrightarrow>
   dict_get_default m' ''investors'' (PList [])
     = PList (append_new cur (concat (map investors_of rest)))"
proof (induction rest arbitrary: merged cur)
  case Nil
  then show ?case by simp
next
  case (Cons c rest)
  from Cons.prems(1) obtain m1 where s: "merge_record merged c = Inr m1"
    and l: "merge_loop m1 rest = Inr m'"
    by (auto split: sum.splits)
  from Cons.IH [OF l merge_record_investors [OF s Cons.prems(2)]]
  show ?case by (simp add: append_new_append)
qed

section \<open>Facts about the grouping loops\<close>

lemma similarity_empty: "calculate_similarity tsr [] b = 0" "calculate_similarity tsr a [] = 0"
  by (simp_all add: calculate_similarity_def)

lemma similar_nonempty:
  "calculate_similarity tsr a b \<ge> FUZZY_MATCH_THRESHOLD \<Longrightarrow> a \<noteq> [] \<and> b \<noteq> []"
  by (auto simp: calculate_similarity_def FUZZY_MATCH_THRESHOLD_def)

lemma inner_loop_props:
  "group_inner_loop tsr ni scanned (grp, used) = (grp', used') \<Longrightarrow>
   (\<exists>added. grp' = grp @ added \<and>
      (\<forall>c\<in>set added. \<exists>j nj. (j, nj, c) \<in> set scanned \<and> nj \<noteq> [] \<and> ni \<noteq> [])) \<and>
   used \<subseteq> used' \<and>
   (\<forall>j\<in>used' - used. \<exists>nj c. (j, nj, c) \<in> set scanned \<and> nj \<noteq> [] \<and> ni \<noteq> [])"
proof (induction scanned arbitrary: grp used)
  case Nil
  then show ?case by simp
next
  case (Cons x scanned)
  obtain j nj cj where x: "x = (j, nj, cj)" by (cases x) auto
  show ?case
  proof (cases "j \<notin> used \<and> calculate_similarity tsr ni nj \<ge> FUZZY_MATCH_THRESHOLD")
    case False
    then have "group_inner_loop tsr ni scanned (grp, used) = (grp', used')"
      using Cons.prems x by (auto split: if_splits)
    from Cons.IH [OF this] obtain added where
      a: "grp' = grp @ added"
         "\<forall>c\<in>set added. \<exists>j nj. (j, nj, c) \<in> set scanned \<and> nj \<noteq> [] \<and> ni \<noteq> []"
      and u: "used \<subseteq> used'"
      and n: "\<forall>j\<in>used' - used. \<exists>nj c. (j, nj, c) \<in> set scanned \<and> nj \<noteq> [] \<and> ni \<noteq> []"
      by blast
    have w: "\<And>j nj c. (j, nj, c) \<in> set scanned \<Longrightarrow> (j, nj, c) \<in> set (x # scanned)"
      by simp
    have 1: "\<forall>c\<in>set added. \<exists>j nj. (j, nj, c) \<in> set (x # scanned) \<and> nj \<noteq> [] \<and> ni \<noteq> []"
      using a(2) w by blast
    have 3: "\<forall>j\<in>used' - used. \<exists>nj c. (j, nj, c) \<in> set (x # scanned) \<and> nj \<noteq> [] \<and> ni \<noteq> []"
      using n w by blast
    from a(1) 1 u 3 show ?thesis by blast
  next
    case True
    then have r: "group_inner_loop tsr ni scanned (grp @ [cj], insert j used) = (grp', used')"
      using Cons.prems x by simp
    from True have ne: "ni \<noteq> []" "nj \<noteq> []" using similar_nonempty by blast+
    from Cons.IH [OF r] obtain added where
      a: "grp' = (grp @ [cj]) @ added"
         "\<forall>c\<in>set added. \<exists>j nj. (j, nj, c) \<in> set scanned \<and> nj \<noteq> [] \<and> ni \<noteq> []"
      and u: "insert j used \<subseteq> used'"
      and n: "\<forall>j'\<in>used' - insert j used. \<exists>nj c. (j', nj, c) \<in> set scanned \<and> nj \<noteq> [] \<and> ni \<noteq> []"
      by blast
    have 1: "\<exists>added. grp' = grp @ added \<and>
      (\<forall>c\<in>set added. \<exists>j nj. (j, nj, c) \<in> set (x # scanned) \<and> nj \<noteq> [] \<and> ni \<noteq> [])"
    proof (intro exI [of _ "cj # added"] conjI ballI)
      show "grp' = grp @ cj # added" using a(1) by simp
      fix c assume "c \<in> set (cj # added)"
      then consider "c = cj" | "c \<in> set added" by auto
      then show "\<exists>j nj. (j, nj, c) \<in> set (x # scanned) \<and> nj \<noteq> [] \<and> ni \<noteq> []"
      proof cases
        case 1
        then have "(j, nj, c) \<in> set (x # scanned)" using x by simp
        with ne show ?thesis by blast
      next
        case 2
        with a(2) obtain j' nj' where "(j', nj', c) \<in> set scanned" "nj' \<noteq> []" by blast
        then have "(j', nj', c) \<in> set (x # scanned)" by simp
        with ne \<open>nj' \<noteq> []\<close> show ?thesis by blast
      qed
    qed
    have 2: "used \<subseteq> used'" using u by auto
    have 3: "\<forall>j'\<in>used' - used. \<exists>nj c. (j', nj, c) \<in> set (x # scanned) \<and> nj \<noteq> [] \<and> ni \<noteq> []"
    proof
      fix j' assume j': "j' \<in> used' - used"
      show "\<exists>nj c. (j', nj, c) \<in> set (x # scanned) \<and> nj \<noteq> [] \<and> ni \<noteq> []"
      proof (cases "j' = j")
        case True
        then have "(j', nj, cj) \<in> set (x # scanned)" using x by simp
        with ne show ?thesis by blast
      next
        case False
        with j' have "j' \<in> used' - insert j used" by auto
        with n obtain nj' c' where "(j', nj', c') \<in> set scanned" "nj' \<noteq> []" by blast
        then have "(j', nj', c') \<in> set (x # scanned)" by simp
        with ne \<open>nj' \<noteq> []\<close> show ?thesis by blast
      qed
    qed
    from 1 2 3 show ?thesis by blast
  qed
qed

lemma inner_loop_empty_seed:
  "group_inner_loop tsr [] scanned (grp, used) = (grp, used)"
  by (induction scanned arbitrary: grp used)
     (auto simp: similarity_empty FUZZY_MATCH_THRESHOLD_def)


lemma outer_loop_unnamed:
  assumes "\<forall>(i, n, c)\<in>set names. normalize_company_name
              (dict_get_default c ''company_name'' (PStr [])) = Inr n"
    and "distinct (map fst names)"
  shows "set rest \<subseteq> set names \<Longrightarrow> distinct (map fst rest) \<Longrightarrow>
     \<forall>(i, n, c)\<in>set rest. n = [] \<longrightarrow> i \<notin> used \<Longrightarrow>
     filter (\<lambda>g. \<exists>r\<in>set g. unnamed r) (group_outer_loop tsr names rest (groups, used))
     = filter (\<lambda>g. \<exists>r\<in>set g. unnamed r) groups
       @ map (\<lambda>r. [r]) (filter unnamed (map (\<lambda>x. snd (snd x)) rest))"
proof (induction rest arbitrary: groups used)
  case Nil
  then show ?case by simp
next
  case (Cons x rest)
  obtain i ni ci where x: "x = (i, ni, ci)" by (cases x) auto
  have xin: "(i, ni, ci) \<in> set names" using Cons.prems(1) x by auto
  have nci: "normalize_company_name (dict_get_default ci ''company_name'' (PStr [])) = Inr ni"
    using assms(1) xin by auto
  have un: "unnamed ci \<longleftrightarrow> ni = []" using nci by (simp add: unnamed_def)
  have sub: "set rest \<subseteq> set names" using Cons.prems(1) by auto
  have dis: "distinct (map fst rest)" using Cons.prems(2) by auto
  have inot: "\<forall>(j, n, c)\<in>set rest. j \<noteq> i" using Cons.prems(2) x by force
  have uniq: "\<And>j n c n' c'. (j, n, c) \<in> set names \<Longrightarrow> (j, n', c') \<in> set names \<Longrightarrow> n = n'"
    using assms(2) by (metis eq_key_imp_eq_value prod.inject)
  show ?case
  proof (cases "i \<in> used")
    case True
    then have "ni \<noteq> []" using Cons.prems(3) x by auto
    then have "\<not> unnamed ci" using un by simp
    moreover have "\<forall>(i, n, c)\<in>set rest. n = [] \<longrightarrow> i \<notin> used" using Cons.prems(3) by auto
    ultimately show ?thesis
      using True x Cons.IH [OF sub dis] by simp
  next
    case False
    obtain grp used' where
      inner: "group_inner_loop tsr ni names ([ci], insert i used) = (grp, used')"
      by (cases "group_inner_loop tsr ni names ([ci], insert i used)") auto
    have step: "group_outer_loop tsr names (x # rest) (groups, used)
                = group_outer_loop tsr names rest (groups @ [grp], used')"
      using False inner x by simp
    show ?thesis
    proof (cases "ni = []")
      case True
      then have g: "grp = [ci]" "used' = insert i used"
        using inner inner_loop_empty_seed [of tsr names "[ci]" "insert i used"] by auto
      have pre: "\<forall>(j, n, c)\<in>set rest. n = [] \<longrightarrow> j \<notin> used'"
        using Cons.prems(3) inot g(2) by auto
      have "unnamed ci" using un True by simp
      then show ?thesis
        unfolding step using Cons.IH [OF sub dis pre, of "groups @ [grp]"] g(1) x by simp
    next
      case False
      from inner_loop_props [OF inner] obtain added where
        a: "grp = [ci] @ added"
           "\<forall>c\<in>set added. \<exists>j nj. (j, nj, c) \<in> set names \<and> nj \<noteq> [] \<and> ni \<noteq> []"
        and n: "\<forall>j\<in>used' - insert i used. \<exists>nj c. (j, nj, c) \<in> set names \<and> nj \<noteq> [] \<and> ni \<noteq> []"
        by blast
      have "\<forall>c\<in>set added. \<not> unnamed c"
      proof
        fix c assume "c \<in> set added"
        with a(2) obtain j nj where "(j, nj, c) \<in> set names" "nj \<noteq> []" by blast
        then show "\<not> unnamed c" using assms(1) by (auto simp: unnamed_def)
      qed
      then have nog: "\<not> (\<exists>r\<in>set grp. unnamed r)" using a(1) un False by auto
      have pre: "\<forall>(j, n, c)\<in>set rest. n = [] \<longrightarrow> j \<notin> used'"
      proof (clarify)
        fix j c assume jin: "(j, [], c) \<in> set rest" and ju: "j \<in> used'"
        have "j \<notin> used" using Cons.prems(3) jin by auto
        moreover have "j \<noteq> i" using inot jin by auto
        ultimately have "j \<in> used' - insert i used" using ju by auto
        with n obtain nj c' where "(j, nj, c') \<in> set names" "nj \<noteq> []" by blast
        moreover have "(j, [], c) \<in> set names" using sub jin by auto
        ultimately show False using uniq by blast
      qed
      have "\<not> unnamed ci" using un False by simp
      then show ?thesis
        unfolding step using Cons.IH [OF sub dis pre, of "groups @ [grp]"] nog x by simp
    qed
  qed
qed

lemma normalized_names_Inr:
  "normalized_names cs = Inr names \<Longrightarrow>
   map snd names = cs \<and>
   (\<forall>(n, c)\<in>set names. normalize_company_name
       (dict_get_default c ''company_name'' (PStr [])) = Inr n)"
proof (induction cs arbitrary: names)
  case Nil
  then show ?case by simp
next
  case (Cons c cs)
  from Cons.prems obtain n r where
    n: "normalize_company_name (dict_get_default c ''company_name'' (PStr [])) = Inr n"
    and r: "normalized_names cs = Inr r" and nm: "names = (n, c) # r"
    by (auto split: sum.splits)
  from Cons.IH [OF r] n show ?case unfolding nm by simp
qed


lemma outer_loop_members:
  "\<forall>g\<in>set groups. g \<noteq> [] \<and> set g \<subseteq> S \<Longrightarrow> \<forall>(i, n, c)\<in>set names. c \<in> S \<Longrightarrow>
   set rest \<subseteq> set names \<Longrightarrow>
   \<forall>g\<in>set (group_outer_loop tsr names rest (groups, used)). g \<noteq> [] \<and> set g \<subseteq> S"
proof (induction rest arbitrary: groups used)
  case Nil
  then show ?case by simp
next
  case (Cons x rest)
  obtain i ni ci where x: "x = (i, ni, ci)" by (cases x) auto
  have sub: "set rest \<subseteq> set names" using Cons.prems(3) by auto
  show ?case
  proof (cases "i \<in> used")
    case True
    then show ?thesis using Cons.IH [OF Cons.prems(1,2) sub] x by simp
  next
    case False
    obtain grp used' where
      inner: "group_inner_loop tsr ni names ([ci], insert i used) = (grp, used')"
      by (cases "group_inner_loop tsr ni names ([ci], insert i used)") auto
    have step: "group_outer_loop tsr names (x # rest) (groups, used)
                = group_outer_loop tsr names rest (groups @ [grp], used')"
      using False inner x by simp
    from inner_loop_props [OF inner] obtain added where
      a: "grp = [ci] @ added"
         "\<forall>c\<in>set added. \<exists>j nj. (j, nj, c) \<in> set names \<and> nj \<noteq> [] \<and> ni \<noteq> []"
      by blast
    have "ci \<in> S" using Cons.prems(2,3) x by auto
    moreover have "set added \<subseteq> S"
    proof
      fix c assume "c \<in> set added"
      with a(2) obtain j nj where "(j, nj, c) \<in> set names" by blast
      with Cons.prems(2) show "c \<in> S" by blast
    qed
    ultimately have "grp \<noteq> [] \<and> set grp \<subseteq> S" using a(1) by simp
    with Cons.prems(1) have "\<forall>g\<in>set (groups @ [grp]). g \<noteq> [] \<and> set g \<subseteq> S" by simp
    from Cons.IH [OF this Cons.prems(2) sub] show ?thesis unfolding step .
  qed
qed

lemma groups_members:
  assumes "group_similar_companies tsr cs = Inr groups"
  shows "\<forall>g\<in>set groups. g \<noteq> [] \<and> set g \<subseteq> set cs"
proof (cases "cs = []")
  case True
  then show ?thesis using assms by (simp add: group_similar_companies_def)
next
  case False
  with assms obtain names where nn: "normalized_names cs = Inr names"
    and g: "groups = group_outer_loop tsr (enumerate 0 names) (enumerate 0 names) ([], {})"
    by (auto simp: group_similar_companies_def split: sum.splits)
  from normalized_names_Inr [OF nn] have ms: "map snd names = cs" by simp
  have 1: "\<forall>(i, n, c)\<in>set (enumerate 0 names). c \<in> set cs"
  proof (clarify)
    fix i n c assume "(i, n, c) \<in> set (enumerate 0 names)"
    then have "i < length names" "names ! i = (n, c)"
      by (simp_all add: in_set_enumerate_eq)
    then have "(n, c) \<in> set names" using nth_mem [of i names] by simp
    then have "snd (n, c) \<in> snd ` set names" by (rule imageI)
    then have "c \<in> set (map snd names)" by simp
    then show "c \<in> set cs" using ms by simp
  qed
  have 0: "\<forall>g\<in>set ([] :: company list list). g \<noteq> [] \<and> set g \<subseteq> set cs" by simp
  from outer_loop_members [OF 0 1 subset_refl] show ?thesis unfolding g .
qed

section \<open>Counting merged sources\<close>

lemma merged_count_append:
  "merged_count (xs @ ys) =
     (case merged_count xs of Inl e \<Rightarrow> Inl e
      | Inr a \<Rightarrow> (case merged_count ys of Inl e \<Rightarrow> Inl e | Inr b \<Rightarrow> Inr (a + b)))"
  by (induction xs) (auto split: sum.splits)

lemma all_sources_set:
  "set_enumeration enum \<Longrightarrow>
   distinct (all_sources enum grp) \<and>
   set (all_sources enum grp)
     = (\<lambda>c. dict_get c ''source'') ` {c \<in> set grp. truthy (dict_get c ''source'')}"
proof -
  assume e: "set_enumeration enum"
  have "\<And>c. truthy (dict_get c ''source'') \<Longrightarrow>
          dict_get_default c ''source'' (PStr []) = dict_get c ''source''"
    by (auto simp: dict_get_def dict_get_default_def split: option.splits)
  then have "set (map (\<lambda>c. dict_get_default c ''source'' (PStr []))
                (filter (\<lambda>c. truthy (dict_get c ''source'')) grp))
        = (\<lambda>c. dict_get c ''source'') ` {c \<in> set grp. truthy (dict_get c ''source'')}"
    by auto
  with e show ?thesis by (simp add: all_sources_def set_enumeration_def)
qed

lemma all_sources_length:
  "set_enumeration enum \<Longrightarrow>
   length (all_sources enum grp)
     = card ((\<lambda>c. dict_get c ''source'') ` {c \<in> set grp. truthy (dict_get c ''source'')})"
proof -
  assume "set_enumeration enum"
  from all_sources_set [OF this, of grp] distinct_card [of "all_sources enum grp"]
  show ?thesis by simp
qed

lemma merge_group_count:
  assumes "set_enumeration enum" and "grp \<noteq> []" and "\<forall>c\<in>set grp. c ''sources'' = None"
    and "merge_company_group enum grp = Inr merged"
  shows "merged_count (if truthy_record merged then [the merged] else [])
         = Inr (if 2 \<le> length grp \<and>
                  2 \<le> card ((\<lambda>c. dict_get c ''source'') `
                              {c \<in> set grp. truthy (dict_get c ''source'')})
                then 1 else 0)"
proof (cases "2 \<le> length grp")
  case False
  with assms(2) obtain c where g: "grp = [c]" by (cases grp; cases "tl grp") auto
  then have "merged = Some c" using assms(4) by simp
  moreover have "c ''sources'' = None" using assms(3) g by simp
  ultimately show ?thesis using g
    by (simp add: truthy_record_def dict_get_default_def py_len_def)
next
  case True
  then obtain a b rest where g: "grp = a # b # rest" by (cases grp; cases "tl grp") auto
  from assms(4) obtain m where m: "merged = Some m"
    unfolding g by (auto split: sum.splits list.splits)
  from merged_sources [OF assms(4) [unfolded m] True]
  have s: "m ''sources'' = Some (PList (all_sources enum grp))" .
  then have ne: "m \<noteq> Map.empty" by auto
  show ?thesis
    using True s ne m all_sources_length [OF assms(1), of grp]
    by (simp add: truthy_record_def dict_get_default_def py_len_def)
qed

lemma merge_groups_count:
  assumes "set_enumeration enum"
  shows "\<forall>g\<in>set groups. g \<noteq> [] \<and> (\<forall>c\<in>set g. c ''sources'' = None) \<Longrightarrow>
     merge_groups enum groups acc = Inr out \<Longrightarrow> merged_count acc = Inr k \<Longrightarrow>
     merged_count out =
       Inr (k + int (length (filter (\<lambda>g. 2 \<le> length g \<and>
                  2 \<le> card ((\<lambda>c. dict_get c ''source'') `
                              {c \<in> set g. truthy (dict_get c ''source'')})) groups)))"
proof (induction groups arbitrary: acc k)
  case Nil
  then show ?case by simp
next
  case (Cons g groups)
  from Cons.prems(2) obtain merged where
    mg: "merge_company_group enum g = Inr merged" and
    rest: "merge_groups enum groups
             (if truthy_record merged then acc @ [the merged] else acc) = Inr out"
    by (auto split: sum.splits)
  have gne: "g \<noteq> []" and gs: "\<forall>c\<in>set g. c ''sources'' = None"
    using Cons.prems(1) by auto
  have acc': "(if truthy_record merged then acc @ [the merged] else acc)
              = acc @ (if truthy_record merged then [the merged] else [])" by simp
  have cnt: "merged_count (acc @ (if truthy_record merged then [the merged] else []))
        = Inr (k + (if 2 \<le> length g \<and>
                  2 \<le> card ((\<lambda>c. dict_get c ''source'') `
                              {c \<in> set g. truthy (dict_get c ''source'')})
                then 1 else 0))"
    unfolding merged_count_append
    using merge_group_count [OF assms gne gs mg] Cons.prems(3) by simp
  have pre: "\<forall>g\<in>set groups. g \<noteq> [] \<and> (\<forall>c\<in>set g. c ''sources'' = None)"
    using Cons.prems(1) by simp
  from Cons.IH [OF pre rest [unfolded acc'] cnt] show ?case by simp
qed

section \<open>The round through the merge loop\<close>

lemma merge_record_funding_round:
  assumes "merge_record merged company = Inr merged'"
  shows "merged' ''funding_round'' =
     (if dict_get merged ''funding_round'' \<in> {PStr ''Unknown'', PStr ''Equity'', PNone}
         \<and> truthy (dict_get company ''funding_round'')
         \<and> dict_get company ''funding_round'' \<noteq> PStr ''Unknown''
      then Some (dict_get company ''funding_round'')
      else merged ''funding_round'')"
proof -
  from assms obtain m where
    mi: "merge_investors (fill_missing ''description''
           (fill_missing ''company_website'' merged company) company) company = Inr m"
    and m': "merged' = fill_missing ''funding_amount''
                (fill_missing ''ceo_name''
                  (fill_missing ''location''
                    (fill_missing ''industry''
                      (merge_funding_round m company) company) company) company) company"
    by (auto simp: merge_record_def split: sum.splits)
  have mk: "m ''funding_round'' = merged ''funding_round''"
    using merge_investors_other_keys [OF mi, of "''funding_round''"]
    by (simp add: fill_missing_apply)
  then have dg: "dict_get m ''funding_round'' = dict_get merged ''funding_round''"
    by (rule dict_get_cong)
  show ?thesis
    unfolding m' by (auto simp: fill_missing_apply merge_funding_round_apply mk dg)
qed

lemma merge_loop_funding_round:
  "merge_loop merged rest = Inr m' \<Longrightarrow>
   m' ''funding_round'' =
     foldl (\<lambda>cur c.
         if (case cur of None \<Rightarrow> PNone | Some v \<Rightarrow> v) \<in> {PStr ''Unknown'', PStr ''Equity'', PNone}
            \<and> truthy (dict_get c ''funding_round'')
            \<and> dict_get c ''funding_round'' \<noteq> PStr ''Unknown''
         then Some (dict_get c ''funding_round'') else cur)
       (merged ''funding_round'') rest"
proof (induction rest arbitrary: merged)
  case Nil
  then show ?case by simp
next
  case (Cons c rest)
  from Cons.prems obtain m1 where s: "merge_record merged c = Inr m1"
    and l: "merge_loop m1 rest = Inr m'"
    by (auto split: sum.splits)
  have "m1 ''funding_round'' =
     (if (case merged ''funding_round'' of None \<Rightarrow> PNone | Some v \<Rightarrow> v)
           \<in> {PStr ''Unknown'', PStr ''Equity'', PNone}
         \<and> truthy (dict_get c ''funding_round'')
         \<and> dict_get c ''funding_round'' \<noteq> PStr ''Unknown''
      then Some (dict_get c ''funding_round'')
      else merged ''funding_round'')"
    using merge_record_funding_round [OF s] by (simp add: dict_get_def)
  with Cons.IH [OF l] show ?case by simp
qed

lemma specific_round_kept:
  "(case cur of None \<Rightarrow> PNone | Some v \<Rightarrow> v) \<notin> {PStr ''Unknown'', PStr ''Equity'', PNone} \<Longrightarrow>
   foldl (\<lambda>cur c.
         if (case cur of None \<Rightarrow> PNone | Some v \<Rightarrow> v) \<in> {PStr ''Unknown'', PStr ''Equity'', PNone}
            \<and> truthy (dict_get c ''funding_round'')
            \<and> dict_get c ''funding_round'' \<noteq> PStr ''Unknown''
         then Some (dict_get c ''funding_round'') else cur) cur rest = cur"
  by (induction rest) auto

section \<open>The distance of the token sort ratio\<close>

lemma indel_lcs: "indel_distance s t + 2 * lcs_length s t = length s + length t"
  by (induction s t rule: indel_distance.induct) (auto simp: min_def max_def)

lemma max3_cases:
  "max a (max b c) = a \<or> max a (max b c) = b \<or> max a (max b c) = (c::nat)"
  by (simp add: max_def)

lemma lcs_common_subseq: "\<exists>u. subseq u s \<and> subseq u t \<and> length u = lcs_length s t"
proof (induction s t rule: lcs_length.induct)
  case (1 ys)
  then show ?case by (intro exI [of _ "[]"]) simp
next
  case (2 x xs)
  then show ?case by (intro exI [of _ "[]"]) simp
next
  case (3 x xs y ys)
  from "3.IH"(1) obtain u1 where u1: "subseq u1 xs" "subseq u1 (y # ys)"
    "length u1 = lcs_length xs (y # ys)" by blast
  from "3.IH"(2) obtain u2 where u2: "subseq u2 (x # xs)" "subseq u2 ys"
    "length u2 = lcs_length (x # xs) ys" by blast
  from "3.IH"(3) obtain u3 where u3: "subseq u3 xs" "subseq u3 ys"
    "length u3 = lcs_length xs ys" by blast
  have e: "lcs_length (x # xs) (y # ys)
           = max (lcs_length xs (y # ys))
               (max (lcs_length (x # xs) ys) ((if x = y then 1 else 0) + lcs_length xs ys))"
    by simp
  consider "lcs_length (x # xs) (y # ys) = lcs_length xs (y # ys)"
    | "lcs_length (x # xs) (y # ys) = lcs_length (x # xs) ys"
    | "lcs_length (x # xs) (y # ys) = (if x = y then 1 else 0) + lcs_length xs ys"
    unfolding e
    using max3_cases [of "lcs_length xs (y # ys)" "lcs_length (x # xs) ys"
        "(if x = y then 1 else 0) + lcs_length xs ys"]
    by blast
  then show ?case
  proof cases
    case 1
    with u1 show ?thesis by (intro exI [of _ u1]) (simp add: list_emb_Cons)
  next
    case 2
    with u2 show ?thesis by (intro exI [of _ u2]) (simp add: list_emb_Cons)
  next
    case 3
    show ?thesis
    proof (cases "x = y")
      case True
      with 3 u3 show ?thesis by (intro exI [of _ "x # u3"]) simp
    next
      case False
      with 3 u3 show ?thesis by (intro exI [of _ u3]) (simp add: list_emb_Cons)
    qed
  qed
qed

lemma lcs_longest: "subseq u s \<Longrightarrow> subseq u t \<Longrightarrow> length u \<le> lcs_length s t"
proof (induction s t arbitrary: u rule: lcs_length.induct)
  case (1 ys)
  then show ?case by simp
next
  case (2 x xs)
  then show ?case by simp
next
  case (3 x xs y ys)
  show ?case
  proof (cases u)
    case Nil
    then show ?thesis by simp
  next
    case (Cons z us)
    show ?thesis
    proof (cases "z = x")
      case False
      then have "subseq u xs" using "3.prems"(1) Cons by simp
      from "3.IH"(1) [OF this "3.prems"(2)] show ?thesis by simp
    next
      case zx: True
      show ?thesis
      proof (cases "z = y")
        case False
        then have "subseq u ys" using "3.prems"(2) Cons by simp
        from "3.IH"(2) [OF "3.prems"(1) this] show ?thesis by simp
      next
        case True
        have "subseq us xs" "subseq us ys" using "3.prems" Cons zx True by simp_all
        from "3.IH"(3) [OF this] have "length us \<le> lcs_length xs ys" .
        then show ?thesis using Cons zx True by simp
      qed
    qed
  qed
qed

lemma levenshtein_le_indel: "levenshtein s t \<le> indel_distance s t"
  by (induction s t rule: levenshtein.induct) (auto simp: min_def)

lemma indel_le_twice_levenshtein: "indel_distance s t \<le> 2 * levenshtein s t"
  by (induction s t rule: levenshtein.induct) (auto simp: min_def)

lemma indel_le_sum: "indel_distance s t \<le> length s + length t"
  using indel_lcs [of s t] by simp

lemma ratio_range:
  fixes d l :: nat
  assumes "d \<le> l" and "0 < l"
  shows "0 \<le> 100 * (1 - real d / real l) \<and> 100 * (1 - real d / real l) \<le> 100"
proof -
  have "real d / real l \<le> 1" using assms by (simp add: pos_divide_le_eq)
  moreover have "0 \<le> real d / real l" by simp
  ultimately show ?thesis by simp
qed

lemma token_sort_ratio_range: "0 \<le> token_sort_ratio a b \<and> token_sort_ratio a b \<le> 100"
proof -
  define s1 where "s1 = join_tokens (sort (tokens a))"
  define s2 where "s2 = join_tokens (sort (tokens b))"
  show ?thesis
  proof (cases "length s1 + length s2 = 0")
    case True
    then show ?thesis by (simp add: token_sort_ratio_def Let_def s1_def s2_def)
  next
    case False
    then have "0 < length s1 + length s2" by simp
    from ratio_range [OF indel_le_sum [of s1 s2] this] False show ?thesis
      unfolding token_sort_ratio_def Let_def s1_def s2_def by simp
  qed
qed

section \<open>Evaluation on concrete records\<close>

lemmas merge_eval =
  sorted_by_priority_def priority_key_def dict_get_default_def dict_get_def source_priority_def
  all_sources_def merge_record_def fill_missing_def merge_investors_def iter_values_def
  merge_funding_round_def

lemma set_enumeration_remdups: "set_enumeration remdups"
  by (simp add: set_enumeration_def)

lemma norm_Foo: "normalize_company_name (PStr ''Foo'') = Inr ''foo''"
  by code_simp

lemma norm_Foo_Inc: "normalize_company_name (PStr ''Foo Inc'') = Inr ''foo''"
  by code_simp

lemma norm_Bar: "normalize_company_name (PStr ''Bar'') = Inr ''bar''"
  by code_simp

lemma sim_foo_bar: "calculate_similarity token_sort_ratio ''foo'' ''bar'' < 85"
  by code_simp

lemma sim_bar_foo: "calculate_similarity token_sort_ratio ''bar'' ''foo'' < 85"
  by code_simp

lemmas group_eval =
  group_similar_companies_def dict_get_default_def FUZZY_MATCH_THRESHOLD_def
  norm_Foo norm_Foo_Inc norm_Bar


section \<open>Grouping is anchored to the first record of a group\<close>

text \<open>
  Claim C1. For three records \<open>A\<close>, \<open>B\<close>, \<open>C\<close>, in this order, whose normalised names
  score at least 85 for \<open>A\<close> and \<open>B\<close>, at least 85 for \<open>B\<close> and \<open>C\<close>, and less than 85
  for \<open>A\<close> and \<open>C\<close>, the grouping step returns exactly the two groups \<open>[A, B]\<close> and
  \<open>[C]\<close>: \<open>C\<close> is compared with the record that opened the group only. The statement
  holds for every scoring function of the library.
\<close>

theorem seed_anchored_grouping:
  assumes "normalize_company_name (dict_get_default A ''company_name'' (PStr [])) = Inr nA"
    and "normalize_company_name (dict_get_default B ''company_name'' (PStr [])) = Inr nB"
    and "normalize_company_name (dict_get_default C ''company_name'' (PStr [])) = Inr nC"
    and "calculate_similarity tsr nA nB \<ge> 85"
    and "calculate_similarity tsr nB nC \<ge> 85"
    and "calculate_similarity tsr nA nC < 85"
  shows "group_similar_companies tsr [A, B, C] = Inr [[A, B], [C]]"
  using assms by (simp add: group_similar_companies_def FUZZY_MATCH_THRESHOLD_def)

theorem seed_anchored_grouping_witness:
  "calculate_similarity token_sort_ratio ''abc'' ''abcd'' \<ge> 85 \<and>
   calculate_similarity token_sort_ratio ''abcd'' ''abcde'' \<ge> 85 \<and>
   calculate_similarity token_sort_ratio ''abc'' ''abcde'' < 85 \<and>
   group_similar_companies token_sort_ratio
     [[''company_name'' \<mapsto> PStr ''Abc''], [''company_name'' \<mapsto> PStr ''Abcd Inc.''],
      [''company_name'' \<mapsto> PStr ''abcde'']]
   = Inr [[[''company_name'' \<mapsto> PStr ''Abc''], [''company_name'' \<mapsto> PStr ''Abcd Inc.'']],
          [[''company_name'' \<mapsto> PStr ''abcde'']]]"
proof -
  have nA: "normalize_company_name (dict_get_default [''company_name'' \<mapsto> PStr ''Abc'']
              ''company_name'' (PStr [])) = Inr ''abc''"
    by code_simp
  have nB: "normalize_company_name (dict_get_default [''company_name'' \<mapsto> PStr ''Abcd Inc.'']
              ''company_name'' (PStr [])) = Inr ''abcd''"
    by code_simp
  have nC: "normalize_company_name (dict_get_default [''company_name'' \<mapsto> PStr ''abcde'']
              ''company_name'' (PStr [])) = Inr ''abcde''"
    by code_simp
  have ab: "calculate_similarity token_sort_ratio ''abc'' ''abcd'' \<ge> 85"
    by code_simp
  have bc: "calculate_similarity token_sort_ratio ''abcd'' ''abcde'' \<ge> 85"
    by code_simp
  have ac: "calculate_similarity token_sort_ratio ''abc'' ''abcde'' < 85"
    by code_simp
  show ?thesis
    using ab bc ac seed_anchored_grouping [OF nA nB nC ab bc ac] by blast
qed

section \<open>Similarity scores\<close>

text \<open>
  Claim C2 does not hold as stated. For the names abcd and abcx the formula with the
  Levenshtein distance, which is 1 here, gives 87.5, while the standard token sort
  ratio that the program calls counts the replaced character as a deletion and an
  insertion and gives 75, on the other side of the threshold 85.
\<close>

theorem similarity_formula_counterexample:
  "calculate_similarity token_sort_ratio ''abcd'' ''abcx'' = 75 \<and>
   join_tokens (sort (tokens ''abcd'')) = ''abcd'' \<and>
   join_tokens (sort (tokens ''abcx'')) = ''abcx'' \<and>
   max 0 (min 100 (100 * (1 - real (levenshtein ''abcd'' ''abcx'') /
                                real (length ''abcd'' + length ''abcx'')))) = 175 / 2"
proof -
  have 1: "calculate_similarity token_sort_ratio ''abcd'' ''abcx'' = 75" by code_simp
  have 2: "join_tokens (sort (tokens ''abcd'')) = ''abcd''" by code_simp
  have 3: "join_tokens (sort (tokens ''abcx'')) = ''abcx''" by code_simp
  have 4: "levenshtein ''abcd'' ''abcx'' = 1" by code_simp
  have 5: "max 0 (min 100 (100 * (1 - real (levenshtein ''abcd'' ''abcx'') /
                                real (length ''abcd'' + length ''abcx'')))) = 175 / 2"
    unfolding 4 by simp
  from 1 2 3 5 show ?thesis by blast
qed

text \<open>
  Claim C2, amended. The similarity of two names lies in \<open>[0, 100]\<close>; it is 0 when one
  of the names is empty; it is 100 when the names are equal (and not empty, the test
  for emptiness comes first); and otherwise it is \<open>100 * (1 - d / (l1 + l2))\<close>, a
  value that needs no clamping, where \<open>l1\<close> and \<open>l2\<close> are the lengths of the two names
  after their tokens have been sorted and joined again, and \<open>d\<close> is the insertion and
  deletion distance of these two strings: \<open>l1 + l2\<close> minus twice the length of a longest
  common subsequence, which is the Levenshtein distance with cost 2 for a
  replacement and lies between the Levenshtein distance and its double. The score
  depends on the tokens of a name only, not on their order.
\<close>

theorem similarity_contract:
  "0 \<le> calculate_similarity token_sort_ratio a b \<and>
   calculate_similarity token_sort_ratio a b \<le> 100 \<and>
   (a = [] \<or> b = [] \<longrightarrow> calculate_similarity token_sort_ratio a b = 0) \<and>
   (a \<noteq> [] \<and> a = b \<longrightarrow> calculate_similarity token_sort_ratio a b = 100) \<and>
   (a \<noteq> [] \<and> b \<noteq> [] \<and> a \<noteq> b \<and>
    0 < length (join_tokens (sort (tokens a))) + length (join_tokens (sort (tokens b))) \<longrightarrow>
    calculate_similarity token_sort_ratio a b =
      100 * (1 -
        real (indel_distance (join_tokens (sort (tokens a))) (join_tokens (sort (tokens b)))) /
        real (length (join_tokens (sort (tokens a))) + length (join_tokens (sort (tokens b)))))) \<and>
   (\<exists>u. subseq u s \<and> subseq u t \<and> indel_distance s t + 2 * length u = length s + length t) \<and>
   (\<forall>u. subseq u s \<and> subseq u t \<longrightarrow> indel_distance s t + 2 * length u \<le> length s + length t) \<and>
   levenshtein s t \<le> indel_distance s t \<and> indel_distance s t \<le> 2 * levenshtein s t \<and>
   (mset (tokens a) = mset (tokens a') \<longrightarrow> token_sort_ratio a b = token_sort_ratio a' b)"
proof (intro conjI impI allI)
  show "0 \<le> calculate_similarity token_sort_ratio a b"
    using token_sort_ratio_range [of a b] by (simp add: calculate_similarity_def)
  show "calculate_similarity token_sort_ratio a b \<le> 100"
    using token_sort_ratio_range [of a b] by (simp add: calculate_similarity_def)
  show "calculate_similarity token_sort_ratio a b = 0" if "a = [] \<or> b = []"
    using that by (simp add: calculate_similarity_def)
  show "calculate_similarity token_sort_ratio a b = 100" if "a \<noteq> [] \<and> a = b"
    using that by (auto simp: calculate_similarity_def)
  show "calculate_similarity token_sort_ratio a b =
      100 * (1 -
        real (indel_distance (join_tokens (sort (tokens a))) (join_tokens (sort (tokens b)))) /
        real (length (join_tokens (sort (tokens a))) + length (join_tokens (sort (tokens b)))))"
    if "a \<noteq> [] \<and> b \<noteq> [] \<and> a \<noteq> b \<and>
        0 < length (join_tokens (sort (tokens a))) + length (join_tokens (sort (tokens b)))"
    using that by (auto simp: calculate_similarity_def token_sort_ratio_def Let_def)
  show "\<exists>u. subseq u s \<and> subseq u t \<and> indel_distance s t + 2 * length u = length s + length t"
    using lcs_common_subseq [of s t] indel_lcs [of s t] by auto
  show "indel_distance s t + 2 * length u \<le> length s + length t"
    if "subseq u s \<and> subseq u t" for u
    using lcs_longest [of u s t] that indel_lcs [of s t] by simp
  show "levenshtein s t \<le> indel_distance s t" by (rule levenshtein_le_indel)
  show "indel_distance s t \<le> 2 * levenshtein s t" by (rule indel_le_twice_levenshtein)
  show "token_sort_ratio a b = token_sort_ratio a' b" if "mset (tokens a) = mset (tokens a')"
  proof -
    have "sort (tokens a) = sort (tokens a')"
      using that by (intro properties_for_sort) simp_all
    then show ?thesis by (simp add: token_sort_ratio_def)
  qed
qed

theorem similarity_contract_witness:
  "calculate_similarity token_sort_ratio ''b a'' ''a b'' = 100 \<and>
   calculate_similarity token_sort_ratio ''abcd'' ''abcx'' = 100 * (1 - 2 / 8) \<and>
   calculate_similarity token_sort_ratio [] ''abd'' = 0 \<and>
   calculate_similarity token_sort_ratio ''abd'' ''abd'' = 100 \<and>
   levenshtein ''abcd'' ''abcx'' = 1 \<and> indel_distance ''abcd'' ''abcx'' = 2 \<and>
   subseq ''abc'' ''abcd'' \<and> subseq ''abc'' ''abcx'' \<and>
   token_sort_ratio ''b a'' ''a'' = token_sort_ratio ''a b'' ''a''"
proof -
  have t1: "join_tokens (sort (tokens ''b a'')) = ''a b''" by code_simp
  have t2: "join_tokens (sort (tokens ''a b'')) = ''a b''" by code_simp
  have l1: "indel_distance ''a b'' ''a b'' = 0" by code_simp
  have t3: "join_tokens (sort (tokens ''abcd'')) = ''abcd''" by code_simp
  have t4: "join_tokens (sort (tokens ''abcx'')) = ''abcx''" by code_simp
  have l2: "indel_distance ''abcd'' ''abcx'' = 2" by code_simp
  have l3: "levenshtein ''abcd'' ''abcx'' = 1" by code_simp
  have s1: "subseq ''abc'' ''abcd''" by simp
  have s2: "subseq ''abc'' ''abcx''" by simp
  have m: "mset (tokens ''b a'') = mset (tokens ''a b'')"
    by (simp add: tokens_def is_token_space_def)
  have c1: "calculate_similarity token_sort_ratio ''b a'' ''a b'' = 100"
    using similarity_contract [of "''b a''" "''a b''"] by (simp add: t1 t2 l1)
  have c2: "calculate_similarity token_sort_ratio ''abcd'' ''abcx'' = 100 * (1 - 2 / 8)"
    using similarity_contract [of "''abcd''" "''abcx''"] by (simp add: t3 t4 l2)
  have c3: "calculate_similarity token_sort_ratio [] ''abd'' = 0"
    using similarity_contract [of "[]" "''abd''"] by simp
  have c4: "calculate_similarity token_sort_ratio ''abd'' ''abd'' = 100"
    using similarity_contract [of "''abd''" "''abd''"] by simp
  have c5: "token_sort_ratio ''b a'' ''a'' = token_sort_ratio ''a b'' ''a''"
    using similarity_contract [of "''b a''" "''a''" _ _ "''a b''"] m by blast
  from c1 c2 c3 c4 l3 l2 s1 s2 c5 show ?thesis by blast
qed

section \<open>The sources of a merged record\<close>

text \<open>
  Claim C3 does not hold as stated. Two records of the same company that come from
  the same source form a group of two, and the record merged from them has a
  \<^verbatim>\<open>sources\<close> list of size 1: size 1 does not imply a singleton group.
\<close>

theorem sources_size_one_counterexample:
  "group_similar_companies token_sort_ratio
     [[''company_name'' \<mapsto> PStr ''Foo'', ''source'' \<mapsto> PStr ''TechCrunch''],
      [''company_name'' \<mapsto> PStr ''Foo Inc'', ''source'' \<mapsto> PStr ''TechCrunch'']]
   = Inr [[[''company_name'' \<mapsto> PStr ''Foo'', ''source'' \<mapsto> PStr ''TechCrunch''],
           [''company_name'' \<mapsto> PStr ''Foo Inc'', ''source'' \<mapsto> PStr ''TechCrunch'']]] \<and>
   deduplicate_companies token_sort_ratio remdups
     [[''company_name'' \<mapsto> PStr ''Foo'', ''source'' \<mapsto> PStr ''TechCrunch''],
      [''company_name'' \<mapsto> PStr ''Foo Inc'', ''source'' \<mapsto> PStr ''TechCrunch'']]
   = Inr [[''company_name'' \<mapsto> PStr ''Foo'', ''source'' \<mapsto> PStr ''TechCrunch'',
           ''sources'' \<mapsto> PList [PStr ''TechCrunch'']]]"
  by (simp add: deduplicate_companies_def truthy_record_def group_eval merge_eval
      calculate_similarity_def)

text \<open>
  Claim C3, amended. The record merged from a group of two or more records holds under
  \<^verbatim>\<open>sources\<close> a list without repetitions whose elements are exactly the truthy
  \<^verbatim>\<open>source\<close> values of the records of the group; its length is the number of distinct
  such values, so it is 1 exactly when all sourced records of the group share one
  source. A group of one record is returned as it is, and no \<^verbatim>\<open>sources\<close> key is added.
\<close>

theorem merged_sources_distinct_set:
  assumes "set_enumeration enum"
    and "merge_company_group enum grp = Inr (Some m)"
    and "2 \<le> length grp"
  shows "(\<exists>xs. m ''sources'' = Some (PList xs) \<and> distinct xs \<and>
           set xs = (\<lambda>c. dict_get c ''source'') ` {c \<in> set grp. truthy (dict_get c ''source'')} \<and>
           length xs = card ((\<lambda>c. dict_get c ''source'') `
                               {c \<in> set grp. truthy (dict_get c ''source'')})) \<and>
         merge_company_group enum [c] = Inr (Some c)"
  using merged_sources [OF assms(2,3)] all_sources_set [OF assms(1), of grp]
    all_sources_length [OF assms(1), of grp]
  by simp

theorem merged_sources_distinct_set_witness:
  "set_enumeration remdups \<and>
   merge_company_group remdups
     [[''company_name'' \<mapsto> PStr ''Foo'', ''source'' \<mapsto> PStr ''TechCrunch''],
      [''company_name'' \<mapsto> PStr ''Foo Inc'', ''source'' \<mapsto> PStr ''SEC Form D'']]
   = Inr (Some [''company_name'' \<mapsto> PStr ''Foo Inc'', ''source'' \<mapsto> PStr ''SEC Form D'',
                ''sources'' \<mapsto> PList [PStr ''TechCrunch'', PStr ''SEC Form D'']]) \<and>
   (\<exists>xs. [''company_name'' \<mapsto> PStr ''Foo Inc'', ''source'' \<mapsto> PStr ''SEC Form D'',
          ''sources'' \<mapsto> PList [PStr ''TechCrunch'', PStr ''SEC Form D'']] ''sources''
            = Some (PList xs) \<and> length xs = 2)"
proof -
  have mg: "merge_company_group remdups
     [[''company_name'' \<mapsto> PStr ''Foo'', ''source'' \<mapsto> PStr ''TechCrunch''],
      [''company_name'' \<mapsto> PStr ''Foo Inc'', ''source'' \<mapsto> PStr ''SEC Form D'']]
   = Inr (Some [''company_name'' \<mapsto> PStr ''Foo Inc'', ''source'' \<mapsto> PStr ''SEC Form D'',
                ''sources'' \<mapsto> PList [PStr ''TechCrunch'', PStr ''SEC Form D'']])"
    by (simp add: merge_eval)
  have len: "2 \<le> length
     [[''company_name'' \<mapsto> PStr ''Foo'', ''source'' \<mapsto> PStr ''TechCrunch''],
      [''company_name'' \<mapsto> PStr ''Foo Inc'', ''source'' \<mapsto> PStr ''SEC Form D'']]"
    by simp
  from merged_sources_distinct_set [OF set_enumeration_remdups mg len]
  show ?thesis using set_enumeration_remdups mg by simp
qed

section \<open>The number of records with merged sources\<close>

text \<open>
  Claim C4 does not hold as stated. Two filings of the same company from the same
  source form one group of two records, yet the statistics report 0 companies with
  merged sources: the count looks at the length of \<^verbatim>\<open>sources\<close>, not at the size of
  the group.
\<close>

theorem merged_count_counterexample:
  "group_similar_companies token_sort_ratio
     [[''company_name'' \<mapsto> PStr ''Foo'', ''source'' \<mapsto> PStr ''SEC Form D''],
      [''company_name'' \<mapsto> PStr ''Foo Inc'', ''source'' \<mapsto> PStr ''SEC Form D'']]
   = Inr [[[''company_name'' \<mapsto> PStr ''Foo'', ''source'' \<mapsto> PStr ''SEC Form D''],
           [''company_name'' \<mapsto> PStr ''Foo Inc'', ''source'' \<mapsto> PStr ''SEC Form D'']]] \<and>
   deduplicate_companies token_sort_ratio remdups
     [[''company_name'' \<mapsto> PStr ''Foo'', ''source'' \<mapsto> PStr ''SEC Form D''],
      [''company_name'' \<mapsto> PStr ''Foo Inc'', ''source'' \<mapsto> PStr ''SEC Form D'']]
   = Inr [[''company_name'' \<mapsto> PStr ''Foo'', ''source'' \<mapsto> PStr ''SEC Form D'',
           ''sources'' \<mapsto> PList [PStr ''SEC Form D'']]] \<and>
   map_sum id companies_with_merged_sources
     (get_dedup_stats
        [[''company_name'' \<mapsto> PStr ''Foo'', ''source'' \<mapsto> PStr ''SEC Form D''],
         [''company_name'' \<mapsto> PStr ''Foo Inc'', ''source'' \<mapsto> PStr ''SEC Form D'']]
        [[''company_name'' \<mapsto> PStr ''Foo'', ''source'' \<mapsto> PStr ''SEC Form D'',
           ''sources'' \<mapsto> PList [PStr ''SEC Form D'']]])
   = Inr 0"
  by (simp add: deduplicate_companies_def truthy_record_def group_eval merge_eval
      calculate_similarity_def get_dedup_stats_def py_len_def)

text \<open>
  Claim C4, amended. When no input record carries a \<^verbatim>\<open>sources\<close> field of its own, the
  statistics of a deduplication report as \<^verbatim>\<open>companies_with_merged_sources\<close> the number
  of groups of two or more records whose records carry at least two distinct truthy
  \<^verbatim>\<open>source\<close> values.
\<close>

theorem merged_sources_count:
  assumes "set_enumeration enum"
    and "group_similar_companies tsr cs = Inr groups"
    and "deduplicate_companies tsr enum cs = Inr out"
    and "get_dedup_stats cs out = Inr st"
    and "\<forall>c\<in>set cs. c ''sources'' = None"
  shows "companies_with_merged_sources st =
     int (length (filter (\<lambda>g. 2 \<le> length g \<and>
                  2 \<le> card ((\<lambda>c. dict_get c ''source'') `
                              {c \<in> set g. truthy (dict_get c ''source'')})) groups))"
proof -
  have mg: "merge_groups enum groups [] = Inr out"
  proof (cases "cs = []")
    case True
    then show ?thesis using assms(2,3)
      by (simp add: deduplicate_companies_def group_similar_companies_def)
  next
    case False
    then show ?thesis using assms(2,3) by (simp add: deduplicate_companies_def)
  qed
  have "\<forall>g\<in>set groups. g \<noteq> [] \<and> set g \<subseteq> set cs"
    using groups_members [OF assms(2)] .
  then have pre: "\<forall>g\<in>set groups. g \<noteq> [] \<and> (\<forall>c\<in>set g. c ''sources'' = None)"
    using assms(5) by blast
  have 0: "merged_count [] = Inr 0" by simp
  from merge_groups_count [OF assms(1) pre mg 0]
  have "merged_count out =
       Inr (int (length (filter (\<lambda>g. 2 \<le> length g \<and>
                  2 \<le> card ((\<lambda>c. dict_get c ''source'') `
                              {c \<in> set g. truthy (dict_get c ''source'')})) groups)))"
    by simp
  with assms(4) show ?thesis
    by (auto simp: get_dedup_stats_def split: sum.splits)
qed

theorem merged_sources_count_witness:
  "\<exists>st. get_dedup_stats
     [[''company_name'' \<mapsto> PStr ''Foo'', ''source'' \<mapsto> PStr ''SEC Form D''],
      [''company_name'' \<mapsto> PStr ''Foo Inc'', ''source'' \<mapsto> PStr ''TechCrunch''],
      [''company_name'' \<mapsto> PStr ''Bar'', ''source'' \<mapsto> PStr ''TechCrunch'']]
     [[''company_name'' \<mapsto> PStr ''Foo'', ''source'' \<mapsto> PStr ''SEC Form D'',
       ''sources'' \<mapsto> PList [PStr ''SEC Form D'', PStr ''TechCrunch'']],
      [''company_name'' \<mapsto> PStr ''Bar'', ''source'' \<mapsto> PStr ''TechCrunch'']] = Inr st \<and>
     companies_with_merged_sources st = 1"
proof -
  let ?r1 = "[''company_name'' \<mapsto> PStr ''Foo'', ''source'' \<mapsto> PStr ''SEC Form D'']"
  let ?r2 = "[''company_name'' \<mapsto> PStr ''Foo Inc'', ''source'' \<mapsto> PStr ''TechCrunch'']"
  let ?r3 = "[''company_name'' \<mapsto> PStr ''Bar'', ''source'' \<mapsto> PStr ''TechCrunch'']"
  let ?m = "[''company_name'' \<mapsto> PStr ''Foo'', ''source'' \<mapsto> PStr ''SEC Form D'',
       ''sources'' \<mapsto> PList [PStr ''SEC Form D'', PStr ''TechCrunch'']]"
  have g: "group_similar_companies token_sort_ratio [?r1, ?r2, ?r3] = Inr [[?r1, ?r2], [?r3]]"
    using sim_foo_bar by (simp add: group_eval calculate_similarity_def)
  have d: "deduplicate_companies token_sort_ratio remdups [?r1, ?r2, ?r3] = Inr [?m, ?r3]"
    using sim_foo_bar
    by (simp add: deduplicate_companies_def truthy_record_def group_eval merge_eval
        calculate_similarity_def)
  obtain st where st: "get_dedup_stats [?r1, ?r2, ?r3] [?m, ?r3] = Inr st"
    by (simp add: get_dedup_stats_def py_len_def dict_get_default_def)
  have ns: "\<forall>c\<in>set [?r1, ?r2, ?r3]. c ''sources'' = None" by simp
  have "set (map (\<lambda>c. dict_get c ''source'')
               (filter (\<lambda>c. truthy (dict_get c ''source'')) [?r1, ?r2]))
        = {PStr ''SEC Form D'', PStr ''TechCrunch''}"
    by (simp add: dict_get_def)
  then have s12: "(\<lambda>c. dict_get c ''source'') `
                    {c \<in> set [?r1, ?r2]. truthy (dict_get c ''source'')}
             = {PStr ''SEC Form D'', PStr ''TechCrunch''}"
    by (simp only: set_map set_filter)
  have q: "2 \<le> card ((\<lambda>c. dict_get c ''source'') `
                    {c \<in> set [?r1, ?r2]. truthy (dict_get c ''source'')})"
    unfolding s12 by simp
  from merged_sources_count [OF set_enumeration_remdups g d st ns]
  have "companies_with_merged_sources st = 1"
    using q by simp
  with st show ?thesis by blast
qed

section \<open>The name of a merged record\<close>

text \<open>
  Claim C5. The record merged from a group has the \<^verbatim>\<open>company_name\<close> of the record of
  the group with the best source priority, the first such record of the group when
  several share that priority; the name is taken over as it is. The priorities are 0
  for SEC Form D, 1 for TechCrunch, 2 for VentureBeat, 3 for CB Insights, 4 for
  PitchBook, 5 for Founder Collective Portfolio and 999 for every other source, also
  for a missing one.
  Merging the TechCrunch record Foo of industry X with the SEC Form D record Foo Inc
  of empty industry gives the name Foo Inc and the industry X.
\<close>

theorem merged_name_highest_priority:
  "(merge_company_group enum grp = Inr (Some m) \<longrightarrow>
      (\<exists>i<length grp. m ''company_name'' = (grp ! i) ''company_name'' \<and>
         (\<forall>j<length grp. j \<noteq> i \<longrightarrow>
            (\<exists>pi pj. priority_key (grp ! i) = Inr pi \<and> priority_key (grp ! j) = Inr pj \<and>
               pi \<le> pj \<and> (j < i \<longrightarrow> pi < pj))))) \<and>
   (dict_get_default x ''source'' (PStr []) = PStr s \<longrightarrow>
      priority_key x = Inr (if s = ''SEC Form D'' then 0 else if s = ''TechCrunch'' then 1
        else if s = ''VentureBeat'' then 2 else if s = ''CB Insights'' then 3
        else if s = ''PitchBook'' then 4 else if s = ''Founder Collective Portfolio'' then 5
        else 999)) \<and>
   (\<exists>m'. merge_company_group enum
       [[''company_name'' \<mapsto> PStr ''Foo'', ''source'' \<mapsto> PStr ''TechCrunch'',
         ''industry'' \<mapsto> PStr ''X''],
        [''company_name'' \<mapsto> PStr ''Foo Inc'', ''source'' \<mapsto> PStr ''SEC Form D'',
         ''industry'' \<mapsto> PStr []]] = Inr (Some m') \<and>
      m' ''company_name'' = Some (PStr ''Foo Inc'') \<and> m' ''industry'' = Some (PStr ''X''))"
proof (intro conjI impI)
  assume ok: "merge_company_group enum grp = Inr (Some m)"
  show "\<exists>i<length grp. m ''company_name'' = (grp ! i) ''company_name'' \<and>
         (\<forall>j<length grp. j \<noteq> i \<longrightarrow>
            (\<exists>pi pj. priority_key (grp ! i) = Inr pi \<and> priority_key (grp ! j) = Inr pj \<and>
               pi \<le> pj \<and> (j < i \<longrightarrow> pi < pj)))"
  proof (cases "2 \<le> length grp")
    case False
    with ok obtain c where "grp = [c]" "m = c"
      by (cases grp; cases "tl grp") auto
    then show ?thesis by simp
  next
    case True
    from merge_company_group_multi [OF ok True] obtain first others where
      s: "sorted_by_priority grp = Inr (first # others)" and
      l: "merge_loop (first(''sources'' \<mapsto> PList (all_sources enum grp))) others = Inr m"
      by blast
    from sorted_by_priority_Inr [OF s] have
      srt: "first # others = sort_key prio grp" and
      keys: "\<forall>c\<in>set grp. priority_key c = Inr (prio c)"
      by simp_all
    have ne: "grp \<noteq> []" using True by auto
    from hd_sort_key_first_min [OF ne, of prio] obtain i where
      i: "i < length grp" "hd (sort_key prio grp) = grp ! i" and
      mn: "\<forall>j<length grp. prio (grp ! i) \<le> prio (grp ! j) \<and>
             (j < i \<longrightarrow> prio (grp ! i) < prio (grp ! j))"
      by blast
    have f: "first = grp ! i" using srt i(2) by (metis list.sel(1))
    have "m ''company_name'' = first ''company_name''"
      using merge_loop_untouched [OF l, of "''company_name''"] by simp
    with f have nm: "m ''company_name'' = (grp ! i) ''company_name''" by simp
    have "\<forall>j<length grp. j \<noteq> i \<longrightarrow>
                (\<exists>pi pj. priority_key (grp ! i) = Inr pi \<and> priority_key (grp ! j) = Inr pj \<and>
                   pi \<le> pj \<and> (j < i \<longrightarrow> pi < pj))"
      using keys mn i(1) by (metis nth_mem)
    with i(1) nm show ?thesis by blast
  qed
next
  assume "dict_get_default x ''source'' (PStr []) = PStr s"
  then show "priority_key x = Inr (if s = ''SEC Form D'' then 0 else if s = ''TechCrunch'' then 1
        else if s = ''VentureBeat'' then 2 else if s = ''CB Insights'' then 3
        else if s = ''PitchBook'' then 4 else if s = ''Founder Collective Portfolio'' then 5
        else 999)"
    by (simp add: priority_key_def source_priority_def)
next
  show "\<exists>m'. merge_company_group enum
       [[''company_name'' \<mapsto> PStr ''Foo'', ''source'' \<mapsto> PStr ''TechCrunch'',
         ''industry'' \<mapsto> PStr ''X''],
        [''company_name'' \<mapsto> PStr ''Foo Inc'', ''source'' \<mapsto> PStr ''SEC Form D'',
         ''industry'' \<mapsto> PStr []]] = Inr (Some m') \<and>
      m' ''company_name'' = Some (PStr ''Foo Inc'') \<and> m' ''industry'' = Some (PStr ''X'')"
    by (simp add: merge_eval)
qed

theorem merged_name_highest_priority_witness:
  "merge_company_group remdups
     [[''company_name'' \<mapsto> PStr ''Foo'', ''source'' \<mapsto> PStr ''TechCrunch''],
      [''company_name'' \<mapsto> PStr ''Foo Inc'', ''source'' \<mapsto> PStr ''SEC Form D'']]
   = Inr (Some [''company_name'' \<mapsto> PStr ''Foo Inc'', ''source'' \<mapsto> PStr ''SEC Form D'',
                ''sources'' \<mapsto> PList [PStr ''TechCrunch'', PStr ''SEC Form D'']]) \<and>
   priority_key [''company_name'' \<mapsto> PStr ''Foo Inc'', ''source'' \<mapsto> PStr ''SEC Form D'']
     = Inr 0 \<and>
   priority_key [''company_name'' \<mapsto> PStr ''Foo'', ''source'' \<mapsto> PStr ''TechCrunch'']
     = Inr 1"
proof -
  let ?a = "[''company_name'' \<mapsto> PStr ''Foo'', ''source'' \<mapsto> PStr ''TechCrunch'']"
  let ?b = "[''company_name'' \<mapsto> PStr ''Foo Inc'', ''source'' \<mapsto> PStr ''SEC Form D'']"
  have mg: "merge_company_group remdups [?a, ?b]
     = Inr (Some [''company_name'' \<mapsto> PStr ''Foo Inc'', ''source'' \<mapsto> PStr ''SEC Form D'',
                  ''sources'' \<mapsto> PList [PStr ''TechCrunch'', PStr ''SEC Form D'']])"
    by (simp add: merge_eval)
  have sa: "dict_get_default ?a ''source'' (PStr []) = PStr ''TechCrunch''"
    by (simp add: dict_get_default_def)
  have sb: "dict_get_default ?b ''source'' (PStr []) = PStr ''SEC Form D''"
    by (simp add: dict_get_default_def)
  from merged_name_highest_priority [of remdups "[?a, ?b]" _ ?a "''TechCrunch''"]
    merged_name_highest_priority [of remdups "[?a, ?b]" _ ?b "''SEC Form D''"]
  show ?thesis using mg sa sb by simp
qed

section \<open>Filling missing fields\<close>




section \<open>The funding round of a merged record\<close>

text \<open>
  Claim C7 does not hold as stated. The current round Equity is one of Unknown, Equity
  and absent, and the candidate, the empty string, is neither Unknown nor absent; yet
  the round is not replaced, because the candidate must also be truthy.
\<close>

theorem funding_round_counterexample:
  "dict_get [''company_name'' \<mapsto> PStr ''Foo'', ''source'' \<mapsto> PStr ''SEC Form D'',
             ''funding_round'' \<mapsto> PStr ''Equity''] ''funding_round''
     \<in> {PStr ''Unknown'', PStr ''Equity'', PNone} \<and>
   dict_get [''company_name'' \<mapsto> PStr ''Foo'', ''source'' \<mapsto> PStr ''TechCrunch'',
             ''funding_round'' \<mapsto> PStr []] ''funding_round''
     \<notin> {PStr ''Unknown'', PNone} \<and>
   merge_company_group remdups
     [[''company_name'' \<mapsto> PStr ''Foo'', ''source'' \<mapsto> PStr ''SEC Form D'',
       ''funding_round'' \<mapsto> PStr ''Equity''],
      [''company_name'' \<mapsto> PStr ''Foo'', ''source'' \<mapsto> PStr ''TechCrunch'',
       ''funding_round'' \<mapsto> PStr []]]
   = Inr (Some [''company_name'' \<mapsto> PStr ''Foo'', ''source'' \<mapsto> PStr ''SEC Form D'',
                ''funding_round'' \<mapsto> PStr ''Equity'',
                ''sources'' \<mapsto> PList [PStr ''SEC Form D'', PStr ''TechCrunch'']])"
  by (simp add: merge_eval)

text \<open>
  Claim C7, amended. In every pass of the merge loop the round of the merged record is
  replaced by the round of the record being folded in exactly when the current round
  is Unknown, Equity or missing (or \<^verbatim>\<open>None\<close>), and the candidate is truthy and is not
  Unknown; otherwise it is kept. Hence the round of the record merged from a group is
  the round of the first record in priority order, taken through this rule once for
  each of the other records, in priority order; a round of the first record that is
  none of Unknown, Equity and missing is never replaced. So Equity followed by
  Series A gives Series A, and Series A followed by Series B stays Series A.
\<close>

theorem funding_round_rule:
  "(merge_record merged company = Inr merged' \<longrightarrow>
      merged' ''funding_round'' =
        (if dict_get merged ''funding_round'' \<in> {PStr ''Unknown'', PStr ''Equity'', PNone}
            \<and> truthy (dict_get company ''funding_round'')
            \<and> dict_get company ''funding_round'' \<noteq> PStr ''Unknown''
         then Some (dict_get company ''funding_round'')
         else merged ''funding_round'')) \<and>
   (merge_company_group enum grp = Inr (Some m) \<and>
    sorted_by_priority grp = Inr (first # others) \<longrightarrow>
      m ''funding_round'' =
        foldl (\<lambda>cur c.
            if (case cur of None \<Rightarrow> PNone | Some v \<Rightarrow> v)
                 \<in> {PStr ''Unknown'', PStr ''Equity'', PNone}
               \<and> truthy (dict_get c ''funding_round'')
               \<and> dict_get c ''funding_round'' \<noteq> PStr ''Unknown''
            then Some (dict_get c ''funding_round'') else cur)
          (first ''funding_round'') others \<and>
      (dict_get first ''funding_round'' \<notin> {PStr ''Unknown'', PStr ''Equity'', PNone} \<longrightarrow>
         m ''funding_round'' = first ''funding_round''))"
proof (intro conjI impI)
  assume "merge_record merged company = Inr merged'"
  then show "merged' ''funding_round'' =
        (if dict_get merged ''funding_round'' \<in> {PStr ''Unknown'', PStr ''Equity'', PNone}
            \<and> truthy (dict_get company ''funding_round'')
            \<and> dict_get company ''funding_round'' \<noteq> PStr ''Unknown''
         then Some (dict_get company ''funding_round'')
         else merged ''funding_round'')"
    by (rule merge_record_funding_round)
next
  assume a: "merge_company_group enum grp = Inr (Some m) \<and>
    sorted_by_priority grp = Inr (first # others)"
  then have ok: "merge_company_group enum grp = Inr (Some m)"
    and s: "sorted_by_priority grp = Inr (first # others)" by simp_all
  show fold: "m ''funding_round'' =
        foldl (\<lambda>cur c.
            if (case cur of None \<Rightarrow> PNone | Some v \<Rightarrow> v)
                 \<in> {PStr ''Unknown'', PStr ''Equity'', PNone}
               \<and> truthy (dict_get c ''funding_round'')
               \<and> dict_get c ''funding_round'' \<noteq> PStr ''Unknown''
            then Some (dict_get c ''funding_round'') else cur)
          (first ''funding_round'') others"
  proof (cases "2 \<le> length grp")
    case False
    with ok obtain c where g: "grp = [c]" "m = c"
      by (cases grp; cases "tl grp") auto
    from s have "first = c" "others = []" unfolding g(1)
      by (auto simp: sorted_by_priority_def split: sum.splits)
    with g(2) show ?thesis by simp
  next
    case True
    from merge_company_group_multi [OF ok True] s have
      l: "merge_loop (first(''sources'' \<mapsto> PList (all_sources enum grp))) others = Inr m"
      by auto
    from merge_loop_funding_round [OF l] show ?thesis by simp
  qed
  assume "dict_get first ''funding_round'' \<notin> {PStr ''Unknown'', PStr ''Equity'', PNone}"
  then have "(case first ''funding_round'' of None \<Rightarrow> PNone | Some v \<Rightarrow> v)
               \<notin> {PStr ''Unknown'', PStr ''Equity'', PNone}"
    by (simp add: dict_get_def)
  from specific_round_kept [OF this, of others] fold
  show "m ''funding_round'' = first ''funding_round''" by simp
qed

theorem funding_round_rule_witness:
  "merge_company_group remdups
     [[''company_name'' \<mapsto> PStr ''Foo'', ''source'' \<mapsto> PStr ''SEC Form D'',
       ''funding_round'' \<mapsto> PStr ''Equity''],
      [''company_name'' \<mapsto> PStr ''Foo'', ''source'' \<mapsto> PStr ''TechCrunch'',
       ''funding_round'' \<mapsto> PStr ''Series A'']]
   = Inr (Some [''company_name'' \<mapsto> PStr ''Foo'', ''source'' \<mapsto> PStr ''SEC Form D'',
                ''sources'' \<mapsto> PList [PStr ''SEC Form D'', PStr ''TechCrunch''],
                ''funding_round'' \<mapsto> PStr ''Series A'']) \<and>
   merge_company_group remdups
     [[''company_name'' \<mapsto> PStr ''Foo'', ''source'' \<mapsto> PStr ''SEC Form D'',
       ''funding_round'' \<mapsto> PStr ''Series A''],
      [''company_name'' \<mapsto> PStr ''Foo'', ''source'' \<mapsto> PStr ''TechCrunch'',
       ''funding_round'' \<mapsto> PStr ''Series B'']]
   = Inr (Some [''company_name'' \<mapsto> PStr ''Foo'', ''source'' \<mapsto> PStr ''SEC Form D'',
                ''funding_round'' \<mapsto> PStr ''Series A'',
                ''sources'' \<mapsto> PList [PStr ''SEC Form D'', PStr ''TechCrunch'']]) \<and>
   foldl (\<lambda>cur c.
            if (case cur of None \<Rightarrow> PNone | Some v \<Rightarrow> v)
                 \<in> {PStr ''Unknown'', PStr ''Equity'', PNone}
               \<and> truthy (dict_get c ''funding_round'')
               \<and> dict_get c ''funding_round'' \<noteq> PStr ''Unknown''
            then Some (dict_get c ''funding_round'') else cur)
     (Some (PStr ''Equity''))
     [[''company_name'' \<mapsto> PStr ''Foo'', ''source'' \<mapsto> PStr ''TechCrunch'',
       ''funding_round'' \<mapsto> PStr ''Series A'']]
   = Some (PStr ''Series A'') \<and>
   merge_record [''funding_round'' \<mapsto> PStr ''Equity''] [''funding_round'' \<mapsto> PStr ''Series A'']
     = Inr [''funding_round'' \<mapsto> PStr ''Series A'']"
proof -
  let ?a = "[''company_name'' \<mapsto> PStr ''Foo'', ''source'' \<mapsto> PStr ''SEC Form D'',
       ''funding_round'' \<mapsto> PStr ''Equity'']"
  let ?b = "[''company_name'' \<mapsto> PStr ''Foo'', ''source'' \<mapsto> PStr ''TechCrunch'',
       ''funding_round'' \<mapsto> PStr ''Series A'']"
  let ?m = "[''company_name'' \<mapsto> PStr ''Foo'', ''source'' \<mapsto> PStr ''SEC Form D'',
                ''sources'' \<mapsto> PList [PStr ''SEC Form D'', PStr ''TechCrunch''],
                ''funding_round'' \<mapsto> PStr ''Series A'']"
  let ?c = "[''company_name'' \<mapsto> PStr ''Foo'', ''source'' \<mapsto> PStr ''SEC Form D'',
       ''funding_round'' \<mapsto> PStr ''Series A'']"
  let ?d = "[''company_name'' \<mapsto> PStr ''Foo'', ''source'' \<mapsto> PStr ''TechCrunch'',
       ''funding_round'' \<mapsto> PStr ''Series B'']"
  let ?n = "[''company_name'' \<mapsto> PStr ''Foo'', ''source'' \<mapsto> PStr ''SEC Form D'',
                ''funding_round'' \<mapsto> PStr ''Series A'',
                ''sources'' \<mapsto> PList [PStr ''SEC Form D'', PStr ''TechCrunch'']]"
  have mg1: "merge_company_group remdups [?a, ?b] = Inr (Some ?m)"
    by (simp add: merge_eval)
  have sr1: "sorted_by_priority [?a, ?b] = Inr (?a # [?b])"
    by (simp add: merge_eval)
  have mg2: "merge_company_group remdups [?c, ?d] = Inr (Some ?n)"
    by (simp add: merge_eval)
  have sr2: "sorted_by_priority [?c, ?d] = Inr (?c # [?d])"
    by (simp add: merge_eval)
  have mr: "merge_record [''funding_round'' \<mapsto> PStr ''Equity'']
              [''funding_round'' \<mapsto> PStr ''Series A'']
            = Inr [''funding_round'' \<mapsto> PStr ''Series A'']"
    by (simp add: merge_eval)
  have f1: "?m ''funding_round'' =
        foldl (\<lambda>cur c.
            if (case cur of None \<Rightarrow> PNone | Some v \<Rightarrow> v)
                 \<in> {PStr ''Unknown'', PStr ''Equity'', PNone}
               \<and> truthy (dict_get c ''funding_round'')
               \<and> dict_get c ''funding_round'' \<noteq> PStr ''Unknown''
            then Some (dict_get c ''funding_round'') else cur)
          (?a ''funding_round'') [?b]"
    using funding_round_rule [of _ _ _ remdups "[?a, ?b]" ?m ?a "[?b]"] mg1 sr1 by blast
  have f2: "?n ''funding_round'' = ?c ''funding_round''"
    using funding_round_rule [of _ _ _ remdups "[?c, ?d]" ?n ?c "[?d]"] mg2 sr2
    by (simp add: dict_get_def)
  from f1 have f1': "foldl (\<lambda>cur c.
            if (case cur of None \<Rightarrow> PNone | Some v \<Rightarrow> v)
                 \<in> {PStr ''Unknown'', PStr ''Equity'', PNone}
               \<and> truthy (dict_get c ''funding_round'')
               \<and> dict_get c ''funding_round'' \<noteq> PStr ''Unknown''
            then Some (dict_get c ''funding_round'') else cur)
          (Some (PStr ''Equity'')) [?b] = Some (PStr ''Series A'')"
    by simp
  show ?thesis by (intro conjI) (rule mg1, rule mg2, rule f1', rule mr)
qed

section \<open>The investors of a merged record\<close>

text \<open>
  Claim C8 does not hold as stated. The investor list of the first record in priority
  order is taken over as it is, so an investor that occurs twice in it occurs twice
  in the merged record.
\<close>

theorem investors_union_counterexample:
  "merge_company_group remdups
     [[''company_name'' \<mapsto> PStr ''Foo'', ''source'' \<mapsto> PStr ''TechCrunch'',
       ''investors'' \<mapsto> PList [PStr ''A'', PStr ''A'']],
      [''company_name'' \<mapsto> PStr ''Foo'', ''source'' \<mapsto> PStr ''VentureBeat'',
       ''investors'' \<mapsto> PList [PStr ''B'']]]
   = Inr (Some [''company_name'' \<mapsto> PStr ''Foo'', ''source'' \<mapsto> PStr ''TechCrunch'',
                ''sources'' \<mapsto> PList [PStr ''TechCrunch'', PStr ''VentureBeat''],
                ''investors'' \<mapsto> PList [PStr ''A'', PStr ''A'', PStr ''B'']]) \<and>
   \<not> distinct [PStr ''A'', PStr ''A'', PStr ''B'']"
  by (simp add: merge_eval)

text \<open>
  Claim C8, amended. Let \<open>first\<close> be the first record of the group in priority order,
  with the investor list \<open>xs\<close>, and \<open>others\<close> the records after it. The investors of
  the merged record are \<open>xs\<close>, unchanged, followed by the truthy investors of \<open>others\<close>
  that are not in \<open>xs\<close>, each once, in the order of their first appearance; equality
  of investors is equality of values, so strings are compared with case. The added
  investors are pairwise different, and the whole list has no repetition when \<open>xs\<close>
  has none. Merging the investors A, B with B, C gives A, B, C.
\<close>

theorem merged_investors_union:
  assumes "merge_company_group enum grp = Inr (Some m)"
    and "sorted_by_priority grp = Inr (first # others)"
    and "dict_get_default first ''investors'' (PList []) = PList xs"
  shows "\<exists>ys. dict_get_default m ''investors'' (PList []) = PList (xs @ ys) \<and>
           ys = rev (remdups (rev (filter (\<lambda>v. truthy v \<and> v \<notin> set xs)
                                     (concat (map investors_of others))))) \<and>
           distinct ys \<and> set ys \<inter> set xs = {} \<and>
           set (xs @ ys) = set xs \<union> {v \<in> set (concat (map investors_of others)). truthy v} \<and>
           (distinct xs \<longrightarrow> distinct (xs @ ys))"
proof -
  let ?news = "concat (map investors_of others)"
  let ?ys = "rev (remdups (rev (filter (\<lambda>v. truthy v \<and> v \<notin> set xs) ?news)))"
  have inv: "dict_get_default m ''investors'' (PList []) = PList (append_new xs ?news)"
  proof (cases "2 \<le> length grp")
    case False
    with assms(1) obtain c where g: "grp = [c]" "m = c"
      by (cases grp; cases "tl grp") auto
    from assms(2) have "first = c" "others = []" unfolding g(1)
      by (auto simp: sorted_by_priority_def split: sum.splits)
    with g(2) assms(3) show ?thesis by simp
  next
    case True
    from merge_company_group_multi [OF assms(1) True] assms(2) have
      l: "merge_loop (first(''sources'' \<mapsto> PList (all_sources enum grp))) others = Inr m"
      by auto
    have "dict_get_default (first(''sources'' \<mapsto> PList (all_sources enum grp)))
            ''investors'' (PList []) = PList xs"
      using assms(3) by (simp add: dict_get_default_def)
    from merge_loop_investors [OF l this] show ?thesis .
  qed
  have 1: "dict_get_default m ''investors'' (PList []) = PList (xs @ ?ys)"
    using inv by (simp only: append_new_eq)
  have 2: "distinct ?ys" by simp
  have 3: "set ?ys \<inter> set xs = {}" by auto
  have 4: "set (xs @ ?ys) = set xs \<union> {v \<in> set ?news. truthy v}" by auto
  have 5: "distinct xs \<longrightarrow> distinct (xs @ ?ys)" using 2 3 by auto
  from 1 2 3 4 5 show ?thesis by blast
qed

theorem merged_investors_union_witness:
  "merge_company_group remdups
     [[''investors'' \<mapsto> PList [PStr ''A'', PStr ''B'']],
      [''investors'' \<mapsto> PList [PStr ''B'', PStr ''C'']]]
   = Inr (Some [''sources'' \<mapsto> PList [],
                ''investors'' \<mapsto> PList [PStr ''A'', PStr ''B'', PStr ''C'']]) \<and>
   dict_get_default [''sources'' \<mapsto> PList [],
                     ''investors'' \<mapsto> PList [PStr ''A'', PStr ''B'', PStr ''C'']]
     ''investors'' (PList [])
   = PList ([PStr ''A'', PStr ''B''] @ [PStr ''C''])"
proof -
  let ?a = "[''investors'' \<mapsto> PList [PStr ''A'', PStr ''B'']]"
  let ?b = "[''investors'' \<mapsto> PList [PStr ''B'', PStr ''C'']]"
  let ?m = "[''sources'' \<mapsto> PList [],
             ''investors'' \<mapsto> PList [PStr ''A'', PStr ''B'', PStr ''C'']]"
  have mg: "merge_company_group remdups [?a, ?b] = Inr (Some ?m)"
    by (simp add: merge_eval)
  have sr: "sorted_by_priority [?a, ?b] = Inr (?a # [?b])"
    by (simp add: merge_eval)
  have xs: "dict_get_default ?a ''investors'' (PList []) = PList [PStr ''A'', PStr ''B'']"
    by (simp add: dict_get_default_def)
  have io: "investors_of ?b = [PStr ''B'', PStr ''C'']"
    by (simp add: investors_of_def dict_get_default_def iter_values_def)
  from merged_investors_union [OF mg sr xs]
  have r: "dict_get_default ?m ''investors'' (PList [])
           = PList ([PStr ''A'', PStr ''B''] @ [PStr ''C''])"
    by (simp add: io)
  show ?thesis by (rule conjI [OF mg r])
qed

section \<open>Records without a name\<close>

text \<open>
  Claim C9. In the result of the grouping step, the groups that hold a record whose
  name normalises to the empty string are exactly the groups of one such record, one
  group for each such record of the input, in the order of the input: a record
  without a name never joins another record, also not another record without a
  name. The reason is that the similarity is 0 as soon as one of the two normalised
  names is empty, also when both are.
\<close>

theorem unnamed_records_stay_alone:
  "(group_similar_companies tsr cs = Inr groups \<longrightarrow>
      filter (list_ex unnamed) groups = map (\<lambda>r. [r]) (filter unnamed cs)) \<and>
   calculate_similarity tsr [] b = 0 \<and> calculate_similarity tsr a [] = 0"
proof (intro conjI impI)
  assume ok: "group_similar_companies tsr cs = Inr groups"
  have le: "list_ex unnamed = (\<lambda>g. \<exists>r\<in>set g. unnamed r)"
    by (simp add: fun_eq_iff list_ex_iff)
  have main: "filter (\<lambda>g. \<exists>r\<in>set g. unnamed r) groups = map (\<lambda>r. [r]) (filter unnamed cs)"
  proof (cases "cs = []")
    case True
    then show ?thesis using ok by (simp add: group_similar_companies_def)
  next
    case False
    with ok obtain names where nn: "normalized_names cs = Inr names"
      and g: "groups = group_outer_loop tsr (enumerate 0 names) (enumerate 0 names) ([], {})"
      by (auto simp: group_similar_companies_def split: sum.splits)
    from normalized_names_Inr [OF nn] have ms: "map snd names = cs" and
      ok: "\<forall>(n, c)\<in>set names. normalize_company_name
         (dict_get_default c ''company_name'' (PStr [])) = Inr n" by simp_all
    have 1: "\<forall>(i, n, c)\<in>set (enumerate 0 names). normalize_company_name
                (dict_get_default c ''company_name'' (PStr [])) = Inr n"
    proof (clarify)
      fix i n c assume "(i, n, c) \<in> set (enumerate 0 names)"
      then have "i < length names" "names ! i = (n, c)"
        by (simp_all add: in_set_enumerate_eq)
      then have "(n, c) \<in> set names" using nth_mem [of i names] by simp
      with ok show "normalize_company_name
                (dict_get_default c ''company_name'' (PStr [])) = Inr n" by blast
    qed
    have 2: "distinct (map fst (enumerate 0 names))" by simp
    have 3: "map (\<lambda>x. snd (snd x)) (enumerate 0 names) = cs"
    proof -
      have "map snd (map snd (enumerate 0 names)) = map (\<lambda>x. snd (snd x)) (enumerate 0 names)"
        by (simp only: map_map comp_def)
      moreover have "map snd (map snd (enumerate 0 names)) = map snd names"
        by simp
      ultimately show ?thesis using ms by simp
    qed
    have 4: "\<forall>(i, n, c)\<in>set (enumerate 0 names). n = [] \<longrightarrow> i \<notin> {}" by simp
    have 5: "set (enumerate 0 names) \<subseteq> set (enumerate 0 names)" by simp
    from outer_loop_unnamed [OF 1 2 5 2 4, of tsr "[]"] show ?thesis
      unfolding g 3 by simp
  qed
  show "filter (list_ex unnamed) groups = map (\<lambda>r. [r]) (filter unnamed cs)"
    unfolding le by (rule main)
next
  show "calculate_similarity tsr [] b = 0" by (simp add: calculate_similarity_def)
next
  show "calculate_similarity tsr a [] = 0" by (simp add: calculate_similarity_def)
qed

theorem unnamed_records_stay_alone_witness:
  "unnamed [''company_name'' \<mapsto> PStr []] \<and>
   unnamed [''company_name'' \<mapsto> PStr ''Inc.''] \<and>
   \<not> unnamed [''company_name'' \<mapsto> PStr ''Foo''] \<and>
   group_similar_companies token_sort_ratio
     [[''company_name'' \<mapsto> PStr []], [''company_name'' \<mapsto> PStr ''Inc.''],
      [''company_name'' \<mapsto> PStr ''Foo'']]
   = Inr [[[''company_name'' \<mapsto> PStr []]], [[''company_name'' \<mapsto> PStr ''Inc.'']],
          [[''company_name'' \<mapsto> PStr ''Foo'']]] \<and>
   filter (list_ex unnamed)
     [[[''company_name'' \<mapsto> PStr []]], [[''company_name'' \<mapsto> PStr ''Inc.'']],
      [[''company_name'' \<mapsto> PStr ''Foo'']]]
   = [[[''company_name'' \<mapsto> PStr []]], [[''company_name'' \<mapsto> PStr ''Inc.'']]]"
proof -
  let ?a = "[''company_name'' \<mapsto> PStr []]"
  let ?b = "[''company_name'' \<mapsto> PStr ''Inc.'']"
  let ?c = "[''company_name'' \<mapsto> PStr ''Foo'']"
  have ni: "normalize_company_name (PStr ''Inc.'') = Inr []" by code_simp
  have ne: "normalize_company_name (PStr []) = Inr []"
    by (simp add: normalize_company_name_def)
  have ua: "unnamed ?a" by (simp add: unnamed_def dict_get_default_def ne)
  have ub: "unnamed ?b" by (simp add: unnamed_def dict_get_default_def ni)
  have uc: "\<not> unnamed ?c" by (simp add: unnamed_def dict_get_default_def norm_Foo)
  have g: "group_similar_companies token_sort_ratio [?a, ?b, ?c] = Inr [[?a], [?b], [?c]]"
    by (simp add: group_eval ni ne calculate_similarity_def)
  from unnamed_records_stay_alone [of token_sort_ratio "[?a, ?b, ?c]" "[[?a], [?b], [?c]]"] g
  have "filter (list_ex unnamed) [[?a], [?b], [?c]] = map (\<lambda>r. [r]) (filter unnamed [?a, ?b, ?c])"
    by blast
  then have "filter (list_ex unnamed) [[?a], [?b], [?c]] = [[?a], [?b]]"
    using ua ub uc by simp
  with ua ub uc g show ?thesis by blast
qed

section \<open>Empty input and a single record\<close>

text \<open>
  Claim C10. Deduplicating the empty list gives the empty list, the statistics of two
  empty lists report 0 removed duplicates, and a single well-formed record (one that
  holds a string under \<^verbatim>\<open>company_name\<close>) is returned as it is.
\<close>

theorem dedup_empty_and_single:
  "deduplicate_companies tsr enum [] = Inr [] \<and>
   (\<exists>st. get_dedup_stats [] [] = Inr st \<and> duplicates_removed st = 0) \<and>
   (r ''company_name'' = Some (PStr name) \<longrightarrow> deduplicate_companies tsr enum [r] = Inr [r])"
proof (intro conjI impI)
  show "deduplicate_companies tsr enum [] = Inr []"
    by (simp add: deduplicate_companies_def)
  show "\<exists>st. get_dedup_stats [] [] = Inr st \<and> duplicates_removed st = 0"
    by (simp add: get_dedup_stats_def)
next
  assume n: "r ''company_name'' = Some (PStr name)"
  then have ne: "r \<noteq> Map.empty" by auto
  from n have "\<exists>s. normalize_company_name (dict_get_default r ''company_name'' (PStr [])) = Inr s"
    by (simp add: dict_get_default_def normalize_company_name_def)
  then obtain s where "normalized_names [r] = Inr [(s, r)]" by auto
  then have "group_similar_companies tsr [r] = Inr [[r]]"
    by (simp add: group_similar_companies_def)
  with ne show "deduplicate_companies tsr enum [r] = Inr [r]"
    by (simp add: deduplicate_companies_def truthy_record_def)
qed

theorem dedup_empty_and_single_witness:
  "deduplicate_companies token_sort_ratio remdups [] = Inr [] \<and>
   (\<exists>st. get_dedup_stats [] [] = Inr st \<and> duplicates_removed st = 0) \<and>
   deduplicate_companies token_sort_ratio remdups
     [[''company_name'' \<mapsto> PStr ''Foo'', ''source'' \<mapsto> PStr ''TechCrunch'']]
   = Inr [[''company_name'' \<mapsto> PStr ''Foo'', ''source'' \<mapsto> PStr ''TechCrunch'']]"
  using dedup_empty_and_single [of token_sort_ratio remdups
      "[''company_name'' \<mapsto> PStr ''Foo'', ''source'' \<mapsto> PStr ''TechCrunch'']" "''Foo''"]
  by simp

end
